theory Spec2Isabelle
  imports Main
begin

section \<open>Errors, panics and remote values\<close>

text \<open>
  The Go code communicates failure through \<open>error\<close> return values and, where it indexes a
  slice or dereferences a pointer, through run-time panics. An \<open>error\<close> that may be \<open>nil\<close>
  is an \<open>error option\<close>; a function that may panic returns \<open>panic + 'a\<close> with \<open>Inl\<close> the
  panic.

  The error values are declared in packages outside the sources at hand (\<open>cdp\<close>, the
  package's own error file); only their classification through \<open>errors.Is\<close> matters to
  the query code. \<open>ErrWrap\<close> is an error wrapping another one, which \<open>errors.Is\<close> looks
  through.
\<close>

datatype panic = NilPointerDereference | IndexOutOfRange

datatype RuntimeRemoteObjectSubtype =
  SubtypeNone | SubtypeArray | SubtypeNull | SubtypeNode | SubtypeOther string

record RuntimeRemoteObject =
  Subtype :: RuntimeRemoteObjectSubtype
  ObjectID :: string

record RuntimePropertyDescriptor =
  Name :: string
  Value :: "RuntimeRemoteObject option"

datatype error =
    ErrElementNotFound
  | ErrCtxNotFound
  | ErrSearchSessionNotFound
  | ErrExpectElement RuntimeRemoteObject
  | ErrExpectElements RuntimeRemoteObject
  | ErrOther string
  | ErrWrap string error

fun errors_Is :: "error \<Rightarrow> error \<Rightarrow> bool" where
  "errors_Is (ErrWrap msg inner) target = (ErrWrap msg inner = target \<or> errors_Is inner target)"
| "errors_Is err target = (err = target)"

section \<open>The bounded retry loop\<close>

text \<open>
  \<^verbatim>\<open>
  type RetryOptions struct {
      Context    context.Context             // The context to control the retry process.
      Sleeper    func(context.Context) error // Sleeper function to wait between retries.
      MaxRetries int                         // Maximum number of retries.
  }
  // The function `fn` is executed up to MaxRetries times until it indicates to stop
  // or an error occurs.
  func NewRetry(options RetryOptions, fn func() (stop bool, err error)) error {
      for i := 0; i < options.MaxRetries; i++ {
          stop, err := fn()
          if stop { return err }
          // Use the Sleeper function from options to wait before the next retry.
          err = options.Sleeper(options.Context)
          if err != nil { return err }
      }
      return nil // Return nil if the maximum retries are reached without success.
  }
  \<close>
  \<open>fn\<close> and the Sleeper are closures with effects: they are state transformers on a state
  \<open>'s\<close> that the loop threads through. The counter \<open>i\<close> stays below \<open>MaxRetries\<close>, so it
  never overflows and is an \<open>int\<close>. A panic of \<open>fn\<close> unwinds the loop.
\<close>

record ('c, 's) RetryOptions =
  Context :: 'c
  Sleeper :: "'c \<Rightarrow> 's \<Rightarrow> error option \<times> 's"
  MaxRetries :: int

function NewRetry_loop ::
  "('c, 's) RetryOptions \<Rightarrow> ('s \<Rightarrow> (panic + bool \<times> error option) \<times> 's) \<Rightarrow> int \<Rightarrow> 's
     \<Rightarrow> (panic + error option) \<times> 's" where
  "NewRetry_loop options fn i s =
     (if i < MaxRetries options then
        (case fn s of
           (Inl p, s1) \<Rightarrow> (Inl p, s1)
         | (Inr (stop, err), s1) \<Rightarrow>
             if stop then (Inr err, s1)
             else (case Sleeper options (Context options) s1 of
                     (Some e, s2) \<Rightarrow> (Inr (Some e), s2)
                   | (None, s2) \<Rightarrow> NewRetry_loop options fn (i + 1) s2))
      else (Inr None, s))"
  by pat_completeness auto
termination
  by (relation "measure (\<lambda>(options, fn, i, s). nat (MaxRetries options - i))") auto

definition NewRetry ::
  "('c, 's) RetryOptions \<Rightarrow> ('s \<Rightarrow> (panic + bool \<times> error option) \<times> 's) \<Rightarrow> 's
     \<Rightarrow> (panic + error option) \<times> 's" where
  "NewRetry options fn s = NewRetry_loop options fn 0 s"

text \<open>
  Modelled from the spec: \<open>utils.Retry\<close> of the imported \<open>utils\<close> package is not among the
  sources. Section 4.4 describes the loop \<open>RaceContext.Do\<close> runs through it as unbounded:
  call \<open>fn\<close>; stop with its error when it says so; otherwise wait one Sleeper tick, give
  up with the Sleeper's failure if it fails, and start over. The loop may run forever, so
  the result is an \<open>option\<close> and \<open>None\<close> is "does not return".
\<close>

partial_function (option) utils_Retry ::
  "('s \<Rightarrow> error option \<times> 's) \<Rightarrow> ('s \<Rightarrow> (panic + bool \<times> error option) \<times> 's) \<Rightarrow> 's
     \<Rightarrow> ((panic + error option) \<times> 's) option" where
  "utils_Retry sleeper_fn fn s =
     (case fn s of
        (Inl p, s1) \<Rightarrow> Some (Inl p, s1)
      | (Inr (stop, err), s1) \<Rightarrow>
          if stop then Some (Inr err, s1)
          else (case sleeper_fn s1 of
                  (Some e, s2) \<Rightarrow> Some (Inr (Some e), s2)
                | (None, s2) \<Rightarrow> utils_Retry sleeper_fn fn s2))"

subsection \<open>Observing the calls of a closure\<close>

text \<open>
  To count the invocations of \<open>fn\<close> and of the Sleeper, a closure is run next to a list
  that records each call together with what it returned. \<open>traced\<close> adds the record to any
  closure, whatever its own state is.
\<close>

datatype retry_event = FnCall "panic + bool \<times> error option" | SleeperCall "error option"

definition traced :: "('r \<Rightarrow> 'ev) \<Rightarrow> ('s \<Rightarrow> 'r \<times> 's) \<Rightarrow> 's \<times> 'ev list \<Rightarrow> 'r \<times> ('s \<times> 'ev list)" where
  "traced ev f = (\<lambda>(s, tr). case f s of (r, s') \<Rightarrow> (r, (s', tr @ [ev r])))"

definition traced_options ::
  "('c, 's) RetryOptions \<Rightarrow> ('c, 's \<times> retry_event list) RetryOptions" where
  "traced_options options =
     \<lparr>Context = Context options,
      Sleeper = (\<lambda>c. traced SleeperCall (Sleeper options c)),
      MaxRetries = MaxRetries options\<rparr>"

text \<open>
  \<open>retries fn sl k s\<close> is the state after \<open>k\<close> rounds in which \<open>fn\<close> signalled "retry"
  (\<open>stop = false\<close>) and the Sleeper then waited without failure, started in \<open>s\<close>; it is
  \<open>None\<close> when the first \<open>k\<close> rounds do not all go that way.
\<close>

fun retries ::
  "('s \<Rightarrow> (panic + bool \<times> error option) \<times> 's) \<Rightarrow> ('s \<Rightarrow> error option \<times> 's) \<Rightarrow> nat \<Rightarrow> 's
     \<Rightarrow> 's option" where
  "retries fn sl 0 s = Some s"
| "retries fn sl (Suc k) s =
     (case fn s of
        (Inr (False, err), s1) \<Rightarrow>
          (case sl s1 of (None, s2) \<Rightarrow> retries fn sl k s2 | (Some e, s2) \<Rightarrow> None)
      | _ \<Rightarrow> None)"

section \<open>The page and its remote end\<close>

text \<open>
  The query code reaches the browser through calls on a page: protocol requests
  (\<^verbatim>\<open>proto.DOMPerformSearch{...}.Call(p)\<close>), methods of the page (\<open>EnableDomain\<close>,
  \<open>Evaluate\<close>, \<open>Release\<close>, \<open>ElementFromNode\<close>, \<open>ElementFromObject\<close>) and the page's Sleeper.
  Their code is not part of the query file; each of them is a parameter of the model.

  A \<open>trace\<close> records, in order, every call that leaves the modelled code. What a call
  answers is a field \<open>on_...\<close> of the page: a function of the trace so far and of the
  call's arguments. This covers every deterministic remote end, since the state it keeps
  is determined by the calls it has seen. A call whose result the code throws away
  (\<open>DOMDiscardSearchResults\<close>, \<open>DOMGetDocument\<close>) is only recorded.

  Modelled from the spec: the Sleeper policies, \<open>Page.Sleeper\<close>, \<open>Element.Sleeper\<close> and
  \<open>Page.EnableDomain\<close> are not among the sources. A policy (a \<open>func() utils.Sleeper\<close>) is
  named by a tag, \<open>NotFoundSleeper\<close> being the fail-fast policy of section 4.4; what a wait
  under a policy and a context token answers is up to the page (\<open>on_Sleeper\<close>).
  \<open>Page.Sleeper\<close> and \<open>Element.Sleeper\<close> give a copy of the receiver with the policy
  replaced (section 3: a node handle carries its own Sleeper policy, overridable).
  \<open>EnableDomain\<close> enables the protocol domain and returns the action that restores it
  (section 6).
\<close>

datatype sleeper = NotFoundSleeper | DefaultSleeper | CustomSleeper nat

record Element =
  Object :: RuntimeRemoteObject
  el_sleeper :: sleeper

record EvalOptions =
  JS :: string
  ByValue :: bool

record DOMPerformSearchResult =
  SearchID :: string
  ResultCount :: int

datatype call =
    CallEnableDomain
  | CallRestore
  | CallSleeper sleeper
  | CallDOMDiscardSearchResults string
  | CallDOMPerformSearch string bool
  | CallDOMGetSearchResults string int int
  | CallDOMGetDocument
  | CallElementFromNode int
  | CallEvaluate EvalOptions
  | CallRuntimeGetProperties string bool
  | CallRelease RuntimeRemoteObject
  | CallElementFromObject RuntimeRemoteObject
  | CallCondition nat
  | CallCallback nat Element

type_synonym trace = "call list"

type_synonym ctx_token = nat

record Page =
  ctx :: ctx_token
  sleeper :: sleeper
  on_Sleeper :: "trace \<Rightarrow> sleeper \<Rightarrow> ctx_token \<Rightarrow> error option"
  on_DOMPerformSearch :: "trace \<Rightarrow> string \<Rightarrow> bool \<Rightarrow> error + DOMPerformSearchResult"
  on_DOMGetSearchResults :: "trace \<Rightarrow> string \<Rightarrow> int \<Rightarrow> int \<Rightarrow> error + int list"
  on_ElementFromNode :: "trace \<Rightarrow> int \<Rightarrow> error + Element"
  on_Evaluate :: "trace \<Rightarrow> EvalOptions \<Rightarrow> error + RuntimeRemoteObject"
  on_RuntimeGetProperties :: "trace \<Rightarrow> string \<Rightarrow> bool \<Rightarrow> error + RuntimePropertyDescriptor list"
  on_Release :: "trace \<Rightarrow> RuntimeRemoteObject \<Rightarrow> error option"
  on_ElementFromObject :: "trace \<Rightarrow> RuntimeRemoteObject \<Rightarrow> error + Element"

definition Page_Sleeper :: "Page \<Rightarrow> sleeper \<Rightarrow> Page" where
  "Page_Sleeper p sl = p\<lparr>sleeper := sl\<rparr>"

definition Element_Sleeper :: "Element \<Rightarrow> sleeper \<Rightarrow> Element" where
  "Element_Sleeper el sl = el\<lparr>el_sleeper := sl\<rparr>"

definition sleeper_wait :: "Page \<Rightarrow> ctx_token \<Rightarrow> trace \<Rightarrow> error option \<times> trace" where
  "sleeper_wait p c tr = (on_Sleeper p tr (sleeper p) c, tr @ [CallSleeper (sleeper p)])"

definition EnableDomain :: "Page \<Rightarrow> trace \<Rightarrow> (trace \<Rightarrow> trace) \<times> trace" where
  "EnableDomain p tr = ((\<lambda>t. t @ [CallRestore]), tr @ [CallEnableDomain])"

definition DOMDiscardSearchResults_Call :: "Page \<Rightarrow> string \<Rightarrow> trace \<Rightarrow> trace" where
  "DOMDiscardSearchResults_Call p searchID tr = tr @ [CallDOMDiscardSearchResults searchID]"

definition DOMPerformSearch_Call ::
  "Page \<Rightarrow> string \<Rightarrow> bool \<Rightarrow> trace \<Rightarrow> (error + DOMPerformSearchResult) \<times> trace" where
  "DOMPerformSearch_Call p query shadow tr =
     (on_DOMPerformSearch p tr query shadow, tr @ [CallDOMPerformSearch query shadow])"

definition DOMGetSearchResults_Call ::
  "Page \<Rightarrow> string \<Rightarrow> int \<Rightarrow> int \<Rightarrow> trace \<Rightarrow> (error + int list) \<times> trace" where
  "DOMGetSearchResults_Call p searchID fromIndex toIndex tr =
     (on_DOMGetSearchResults p tr searchID fromIndex toIndex,
      tr @ [CallDOMGetSearchResults searchID fromIndex toIndex])"

definition DOMGetDocument_Call :: "Page \<Rightarrow> trace \<Rightarrow> trace" where
  "DOMGetDocument_Call p tr = tr @ [CallDOMGetDocument]"

definition ElementFromNode :: "Page \<Rightarrow> int \<Rightarrow> trace \<Rightarrow> (error + Element) \<times> trace" where
  "ElementFromNode p nodeID tr = (on_ElementFromNode p tr nodeID, tr @ [CallElementFromNode nodeID])"

subsection \<open>Search\<close>

text \<open>
  \<^verbatim>\<open>
  func (p *Page) Search(query string) (*SearchResult, error) {
      sr := &SearchResult{page: p, restore: p.EnableDomain(proto.DOMEnable{})}
      retryOptions := RetryOptions{Context: p.ctx, Sleeper: p.sleeper(), MaxRetries: 3}
      err := NewRetry(retryOptions, func() (bool, error) {
          if sr.DOMPerformSearchResult != nil {
              _ = proto.DOMDiscardSearchResults{SearchID: sr.SearchID}.Call(p)
          }
          res, err := proto.DOMPerformSearch{Query: query, IncludeUserAgentShadowDOM: true}.Call(p)
          if err != nil { return true, err }
          sr.DOMPerformSearchResult = res
          if res.ResultCount == 0 { return false, nil }
          result, err := proto.DOMGetSearchResults{SearchID: res.SearchID, FromIndex: 0, ToIndex: 1}.Call(p)
          if err != nil {
              if errors.Is(err, cdp.ErrCtxNotFound) || errors.Is(err, cdp.ErrSearchSessionNotFound) {
                  return false, nil
              }
              return true, err
          }
          id := result.NodeIds[0]
          if id == 0 {
              _, _ = proto.DOMGetDocument{}.Call(p)
              return false, nil
          }
          el, err := p.ElementFromNode(&proto.DOMNode{NodeID: id})
          if err != nil { return true, err }
          sr.First = el
          return true, nil
      })
      if err != nil { return nil, err }
      return sr, nil
  }
  func (s *SearchResult) Release() {
      s.restore()
      _ = proto.DOMDiscardSearchResults{SearchID: s.SearchID}.Call(s.page)
  }
  \<close>
  The closure handed to \<open>NewRetry\<close> updates the captured \<open>sr\<close>: its state is the pair of
  \<open>sr\<close> and the trace. \<open>discard_previous\<close> is the closure's opening \<open>if\<close>, \<open>Search_attempt\<close>
  the closure, \<open>Search_start\<close> the state it first runs in. The embedded
  \<open>*proto.DOMPerformSearchResult\<close> is a pointer, \<open>nil\<close> until an attempt sets it; reading
  \<open>SearchID\<close> through a \<open>nil\<close> one panics. \<open>result.NodeIds[0]\<close> on an empty slice panics.
\<close>

record SearchResult =
  DOMPerformSearchResult :: "DOMPerformSearchResult option"
  sr_page :: Page
  restore :: "trace \<Rightarrow> trace"
  First :: "Element option"

definition discard_previous :: "Page \<Rightarrow> SearchResult \<Rightarrow> trace \<Rightarrow> trace" where
  "discard_previous p sr tr =
     (case DOMPerformSearchResult sr of
        None \<Rightarrow> tr
      | Some prev \<Rightarrow> DOMDiscardSearchResults_Call p (SearchID prev) tr)"

definition Search_attempt ::
  "Page \<Rightarrow> string \<Rightarrow> SearchResult \<times> trace
     \<Rightarrow> (panic + bool \<times> error option) \<times> (SearchResult \<times> trace)" where
  "Search_attempt p query = (\<lambda>(sr, tr).
     let tr1 = discard_previous p sr tr
     in case DOMPerformSearch_Call p query True tr1 of
          (Inl err, tr2) \<Rightarrow> (Inr (True, Some err), (sr, tr2))
        | (Inr res, tr2) \<Rightarrow>
            let sr1 = sr\<lparr>DOMPerformSearchResult := Some res\<rparr>
            in if ResultCount res = 0 then (Inr (False, None), (sr1, tr2))
               else case DOMGetSearchResults_Call p (SearchID res) 0 1 tr2 of
                      (Inl err, tr3) \<Rightarrow>
                        if errors_Is err ErrCtxNotFound \<or> errors_Is err ErrSearchSessionNotFound
                        then (Inr (False, None), (sr1, tr3))
                        else (Inr (True, Some err), (sr1, tr3))
                    | (Inr NodeIds, tr3) \<Rightarrow>
                        (case NodeIds of
                           [] \<Rightarrow> (Inl IndexOutOfRange, (sr1, tr3))
                         | nodeID # _ \<Rightarrow>
                             if nodeID = 0
                             then (Inr (False, None), (sr1, DOMGetDocument_Call p tr3))
                             else case ElementFromNode p nodeID tr3 of
                                    (Inl err, tr4) \<Rightarrow> (Inr (True, Some err), (sr1, tr4))
                                  | (Inr el, tr4) \<Rightarrow>
                                      (Inr (True, None), (sr1\<lparr>First := Some el\<rparr>, tr4))))"

definition Search_sleeper ::
  "Page \<Rightarrow> ctx_token \<Rightarrow> SearchResult \<times> trace \<Rightarrow> error option \<times> (SearchResult \<times> trace)" where
  "Search_sleeper p = (\<lambda>c (sr, tr). case sleeper_wait p c tr of (r, tr') \<Rightarrow> (r, (sr, tr')))"

definition Search_retryOptions :: "Page \<Rightarrow> (ctx_token, SearchResult \<times> trace) RetryOptions" where
  "Search_retryOptions p = \<lparr>Context = ctx p, Sleeper = Search_sleeper p, MaxRetries = 3\<rparr>"

definition Search_start :: "Page \<Rightarrow> trace \<Rightarrow> SearchResult \<times> trace" where
  "Search_start p tr =
     (case EnableDomain p tr of
        (restore_fn, tr0) \<Rightarrow>
          (\<lparr>DOMPerformSearchResult = None, sr_page = p, restore = restore_fn, First = None\<rparr>,
           tr0))"

definition Search ::
  "Page \<Rightarrow> string \<Rightarrow> trace \<Rightarrow> (panic + SearchResult option \<times> error option) \<times> trace" where
  "Search p query tr =
     (case NewRetry (Search_retryOptions p) (Search_attempt p query) (Search_start p tr) of
        (Inl pn, (sr, tr')) \<Rightarrow> (Inl pn, tr')
      | (Inr (Some err), (sr, tr')) \<Rightarrow> (Inr (None, Some err), tr')
      | (Inr None, (sr, tr')) \<Rightarrow> (Inr (Some sr, None), tr'))"

definition SearchResult_Release :: "SearchResult \<Rightarrow> trace \<Rightarrow> (panic + unit) \<times> trace" where
  "SearchResult_Release s tr =
     (let tr1 = restore s tr
      in case DOMPerformSearchResult s of
           None \<Rightarrow> (Inl NilPointerDereference, tr1)
         | Some r \<Rightarrow> (Inr (), DOMDiscardSearchResults_Call (sr_page s) (SearchID r) tr1))"

section \<open>Element lists\<close>

text \<open>
  \<^verbatim>\<open>
  func (p *Page) ElementsByJS(opts *EvalOptions) (Elements, error) {
      res, err := p.Evaluate(opts.ByObject())
      if err != nil { return nil, err }
      if res.Subtype != proto.RuntimeRemoteObjectSubtypeArray {
          return nil, &ErrExpectElements{res}
      }
      defer func() { err = p.Release(res) }()
      list, err := proto.RuntimeGetProperties{ObjectID: res.ObjectID, OwnProperties: true}.Call(p)
      if err != nil { return nil, err }
      elemList := Elements{}
      for _, obj := range list.Result {
          if obj.Name == "__proto__" || obj.Name == "length" { continue }
          val := obj.Value
          if val.Subtype != proto.RuntimeRemoteObjectSubtypeNode {
              return nil, &ErrExpectElements{val}
          }
          el, err := p.ElementFromObject(val)
          if err != nil { return nil, err }
          elemList = append(elemList, el)
      }
      return elemList, err
  }
  \<close>
  The results are unnamed, so the deferred assignment to the local \<open>err\<close> comes after the
  returned values are fixed: the release runs on every path behind the \<open>defer\<close>, a panic
  included, and what it answers is dropped. \<open>val\<close> is a pointer; reading \<open>Subtype\<close>
  through a \<open>nil\<close> one panics. At the final \<open>return\<close> the outer \<open>err\<close> is \<open>nil\<close>.
\<close>

definition Evaluate :: "Page \<Rightarrow> EvalOptions \<Rightarrow> trace \<Rightarrow> (error + RuntimeRemoteObject) \<times> trace" where
  "Evaluate p opts tr = (on_Evaluate p tr opts, tr @ [CallEvaluate opts])"

definition ByObject :: "EvalOptions \<Rightarrow> EvalOptions" where
  "ByObject opts = opts\<lparr>ByValue := False\<rparr>"

definition RuntimeGetProperties_Call ::
  "Page \<Rightarrow> string \<Rightarrow> bool \<Rightarrow> trace \<Rightarrow> (error + RuntimePropertyDescriptor list) \<times> trace" where
  "RuntimeGetProperties_Call p objectID ownProperties tr =
     (on_RuntimeGetProperties p tr objectID ownProperties,
      tr @ [CallRuntimeGetProperties objectID ownProperties])"

definition Release :: "Page \<Rightarrow> RuntimeRemoteObject \<Rightarrow> trace \<Rightarrow> error option \<times> trace" where
  "Release p obj tr = (on_Release p tr obj, tr @ [CallRelease obj])"

definition ElementFromObject ::
  "Page \<Rightarrow> RuntimeRemoteObject \<Rightarrow> trace \<Rightarrow> (error + Element) \<times> trace" where
  "ElementFromObject p obj tr = (on_ElementFromObject p tr obj, tr @ [CallElementFromObject obj])"

fun ElementsByJS_loop ::
  "Page \<Rightarrow> RuntimePropertyDescriptor list \<Rightarrow> Element list \<Rightarrow> trace
     \<Rightarrow> (panic + Element list option \<times> error option) \<times> trace" where
  "ElementsByJS_loop p [] elemList tr = (Inr (Some elemList, None), tr)"
| "ElementsByJS_loop p (obj # rest) elemList tr =
     (if Name obj = ''__proto__'' \<or> Name obj = ''length''
      then ElementsByJS_loop p rest elemList tr
      else case Value obj of
             None \<Rightarrow> (Inl NilPointerDereference, tr)
           | Some val \<Rightarrow>
               if Subtype val \<noteq> SubtypeNode
               then (Inr (None, Some (ErrExpectElements val)), tr)
               else case ElementFromObject p val tr of
                      (Inl err, tr1) \<Rightarrow> (Inr (None, Some err), tr1)
                    | (Inr el, tr1) \<Rightarrow> ElementsByJS_loop p rest (elemList @ [el]) tr1)"

definition ElementsByJS_body ::
  "Page \<Rightarrow> RuntimeRemoteObject \<Rightarrow> trace
     \<Rightarrow> (panic + Element list option \<times> error option) \<times> trace" where
  "ElementsByJS_body p res tr =
     (case RuntimeGetProperties_Call p (ObjectID res) True tr of
        (Inl err, tr1) \<Rightarrow> (Inr (None, Some err), tr1)
      | (Inr list, tr1) \<Rightarrow> ElementsByJS_loop p list [] tr1)"

definition ElementsByJS ::
  "Page \<Rightarrow> EvalOptions \<Rightarrow> trace \<Rightarrow> (panic + Element list option \<times> error option) \<times> trace" where
  "ElementsByJS p opts tr =
     (case Evaluate p (ByObject opts) tr of
        (Inl err, tr1) \<Rightarrow> (Inr (None, Some err), tr1)
      | (Inr res, tr1) \<Rightarrow>
          if Subtype res \<noteq> SubtypeArray
          then (Inr (None, Some (ErrExpectElements res)), tr1)
          else case ElementsByJS_body p res tr1 of
                 (result, tr2) \<Rightarrow> (result, snd (Release p res tr2)))"

subsection \<open>Vocabulary for the entries of a remote array\<close>

text \<open>
  The entries the loop does not skip, whether an entry holds a node-typed value, and the
  \<open>ElementFromObject\<close> calls the loop makes for a list of entries.
\<close>

definition own_entries :: "RuntimePropertyDescriptor list \<Rightarrow> RuntimePropertyDescriptor list" where
  "own_entries props = filter (\<lambda>obj. Name obj \<noteq> ''__proto__'' \<and> Name obj \<noteq> ''length'') props"

definition node_typed :: "RuntimePropertyDescriptor \<Rightarrow> bool" where
  "node_typed obj = (case Value obj of None \<Rightarrow> False | Some val \<Rightarrow> Subtype val = SubtypeNode)"

definition element_calls :: "RuntimePropertyDescriptor list \<Rightarrow> trace" where
  "element_calls entries =
     concat (map (\<lambda>obj. case Value obj of None \<Rightarrow> [] | Some val \<Rightarrow> [CallElementFromObject val]) entries)"

section \<open>Race\<close>

text \<open>
  \<^verbatim>\<open>
  type raceBranch struct {
      condition func(*Page) (*Element, error)
      callback  func(*Element) error
  }
  type RaceContext struct { page *Page; branches []*raceBranch }
  func (p *Page) Race() *RaceContext { return &RaceContext{page: p} }
  func (rc *RaceContext) ElementFunc(fn func(*Page) (*Element, error)) *RaceContext {
      rc.branches = append(rc.branches, &raceBranch{condition: fn})
      return rc
  }
  func (rc *RaceContext) Handle(callback func(*Element) error) *RaceContext {
      rc.branches[len(rc.branches)-1].callback = callback
      return rc
  }
  func (rc *RaceContext) Do() (*Element, error) {
      var el *Element
      err := utils.Retry(rc.page.ctx, rc.page.sleeper(), func() (stop bool, err error) {
          for _, branch := range rc.branches {
              bEl, err := branch.condition(rc.page.Sleeper(NotFoundSleeper))
              if err == nil {
                  el = bEl.Sleeper(rc.page.sleeper)
                  if branch.callback != nil { err = branch.callback(el) }
                  return true, err
              } else if !errors.Is(err, &ErrElementNotFound{}) {
                  return true, err
              }
          }
          return
      })
      return el, err
  }
  \<close>
  Conditions and callbacks are closures of the caller. What they answer is a function of
  their argument and of the trace so far; each invocation is recorded with the position
  of its branch. A callback that is \<open>nil\<close> is \<open>None\<close>. \<open>Do_branches\<close> is the \<open>for\<close> loop
  of the closure, \<open>Do_tick\<close> the closure; its state is the captured \<open>el\<close> and the trace.
  Inside the loop \<open>err\<close> is a variable of the loop body, so the bare \<open>return\<close> behind the
  loop answers \<open>(false, nil)\<close>. \<open>bEl.Sleeper\<close> on a \<open>nil\<close> element is a nil dereference.
\<close>

record raceBranch =
  condition :: "Page \<Rightarrow> trace \<Rightarrow> Element option \<times> error option"
  callback :: "(Element \<Rightarrow> trace \<Rightarrow> error option) option"

record RaceContext =
  rc_page :: Page
  branches :: "raceBranch list"

definition Race :: "Page \<Rightarrow> RaceContext" where
  "Race p = \<lparr>rc_page = p, branches = []\<rparr>"

definition ElementFunc ::
  "(Page \<Rightarrow> trace \<Rightarrow> Element option \<times> error option) \<Rightarrow> RaceContext \<Rightarrow> RaceContext" where
  "ElementFunc fn rc = rc\<lparr>branches := branches rc @ [\<lparr>condition = fn, callback = None\<rparr>]\<rparr>"

definition Handle ::
  "(Element \<Rightarrow> trace \<Rightarrow> error option) option \<Rightarrow> RaceContext \<Rightarrow> panic + RaceContext" where
  "Handle cb rc =
     (let i = int (length (branches rc)) - 1
      in if 0 \<le> i \<and> i < int (length (branches rc))
         then Inr (rc\<lparr>branches := (branches rc)[nat i := (branches rc ! nat i)\<lparr>callback := cb\<rparr>]\<rparr>)
         else Inl IndexOutOfRange)"

fun Do_branches ::
  "Page \<Rightarrow> raceBranch list \<Rightarrow> nat \<Rightarrow> Element option \<times> trace
     \<Rightarrow> (panic + bool \<times> error option) \<times> (Element option \<times> trace)" where
  "Do_branches p [] i (el, tr) = (Inr (False, None), (el, tr))"
| "Do_branches p (branch # rest) i (el, tr) =
     (case condition branch (Page_Sleeper p NotFoundSleeper) tr of
        (bEl, err) \<Rightarrow>
          let tr1 = tr @ [CallCondition i]
          in case err of
               None \<Rightarrow>
                 (case bEl of
                    None \<Rightarrow> (Inl NilPointerDereference, (el, tr1))
                  | Some b \<Rightarrow>
                      let el1 = Element_Sleeper b (sleeper p)
                      in case callback branch of
                           None \<Rightarrow> (Inr (True, None), (Some el1, tr1))
                         | Some cb \<Rightarrow>
                             (Inr (True, cb el1 tr1), (Some el1, tr1 @ [CallCallback i el1])))
             | Some e \<Rightarrow>
                 if \<not> errors_Is e ErrElementNotFound
                 then (Inr (True, Some e), (el, tr1))
                 else Do_branches p rest (i + 1) (el, tr1))"

definition Do_tick ::
  "RaceContext \<Rightarrow> Element option \<times> trace
     \<Rightarrow> (panic + bool \<times> error option) \<times> (Element option \<times> trace)" where
  "Do_tick rc = Do_branches (rc_page rc) (branches rc) 0"

definition Do_sleeper ::
  "RaceContext \<Rightarrow> Element option \<times> trace \<Rightarrow> error option \<times> (Element option \<times> trace)" where
  "Do_sleeper rc = (\<lambda>(el, tr).
     case sleeper_wait (rc_page rc) (ctx (rc_page rc)) tr of (r, tr') \<Rightarrow> (r, (el, tr')))"

definition Do :: "RaceContext \<Rightarrow> trace \<Rightarrow> ((panic + Element option \<times> error option) \<times> trace) option" where
  "Do rc tr =
     (case utils_Retry (Do_sleeper rc) (Do_tick rc) (None, tr) of
        None \<Rightarrow> None
      | Some (Inl pn, (el, tr')) \<Rightarrow> Some (Inl pn, tr')
      | Some (Inr err, (el, tr')) \<Rightarrow> Some (Inr (el, err), tr'))"

section \<open>Predicates used in the proofs\<close>

text \<open>
  On a tick that starts with the calls \<open>tr\<close> made so far, every branch before the \<open>i\<close>-th
  reports an error classified as element-not-found.
\<close>

definition not_found_before :: "Page \<Rightarrow> raceBranch list \<Rightarrow> trace \<Rightarrow> nat \<Rightarrow> bool" where
  "not_found_before p bs tr i =
     (\<forall>j < i. \<exists>e. snd (condition (bs ! j) (Page_Sleeper p NotFoundSleeper) (tr @ map CallCondition [0..<j])) = Some e
                   \<and> errors_Is e ErrElementNotFound)"

text \<open>
  What every state of the retry loop of \<open>Search\<close> satisfies: the restore action and the page
  are the ones \<open>Search\<close> started with, no element was requested for node identifier 0, and
  \<open>First\<close>, once set, holds an element made for a non-zero node identifier.
\<close>

definition Search_inv :: "Page \<Rightarrow> trace \<Rightarrow> SearchResult \<times> trace \<Rightarrow> bool" where
  "Search_inv p tr0 = (\<lambda>(sr, tr).
     restore sr = (\<lambda>t. t @ [CallRestore]) \<and> sr_page sr = p
     \<and> (\<exists>ext. tr = tr0 @ ext \<and> CallElementFromNode 0 \<notin> set ext)
     \<and> (\<forall>el. First sr = Some el \<longrightarrow>
           (\<exists>t nodeID. nodeID \<noteq> 0 \<and> on_ElementFromNode p t nodeID = Inr el)))"

section \<open>Concrete inputs\<close>

text \<open>
  Closures for running the retry loop on concrete inputs. Their state is the number of
  Sleeper waits so far: \<open>never_stop\<close> always answers \<open>(false, nil)\<close>, \<open>sleep_ok\<close> always
  waits successfully, and \<open>sleep_fails_at j\<close> fails on wait \<open>j\<close>.
\<close>

definition never_stop :: "nat \<Rightarrow> (panic + bool \<times> error option) \<times> nat" where
  "never_stop = (\<lambda>s. (Inr (False, None), s))"

definition sleep_ok :: "unit \<Rightarrow> nat \<Rightarrow> error option \<times> nat" where
  "sleep_ok = (\<lambda>c s. (None, Suc s))"

definition sleep_fails_at :: "nat \<Rightarrow> unit \<Rightarrow> nat \<Rightarrow> error option \<times> nat" where
  "sleep_fails_at j = (\<lambda>c s. (if Suc s = j then Some (ErrOther ''context canceled'') else None, Suc s))"

text \<open>
  Pages for running \<open>Search\<close>: the Sleeper answers \<open>wait\<close>, every search reports \<open>count\<close>
  results under a session name that tells the attempts apart, and fetching search
  results answers \<open>fetched\<close>.
\<close>

definition session_name :: "trace \<Rightarrow> string" where
  "session_name tr = (if length tr \<le> 1 then ''s1'' else if length tr \<le> 4 then ''s2'' else ''s3'')"

definition node_element :: Element where
  "node_element = \<lparr>Object = \<lparr>Subtype = SubtypeNode, ObjectID = ''node''\<rparr>, el_sleeper = DefaultSleeper\<rparr>"

definition search_page :: "sleeper \<Rightarrow> error option \<Rightarrow> int \<Rightarrow> error + int list \<Rightarrow> Page" where
  "search_page sl wait count fetched =
     \<lparr>ctx = 0,
      sleeper = sl,
      on_Sleeper = (\<lambda>tr s c. wait),
      on_DOMPerformSearch = (\<lambda>tr q shadow. Inr \<lparr>SearchID = session_name tr, ResultCount = count\<rparr>),
      on_DOMGetSearchResults = (\<lambda>tr searchID fromIndex toIndex. fetched),
      on_ElementFromNode = (\<lambda>tr nodeID. Inr node_element),
      on_Evaluate = (\<lambda>tr opts. Inl (ErrOther ''not used'')),
      on_RuntimeGetProperties = (\<lambda>tr objectID own. Inl (ErrOther ''not used'')),
      on_Release = (\<lambda>tr obj. None),
      on_ElementFromObject = (\<lambda>tr obj. Inl (ErrOther ''not used''))\<rparr>"

definition no_match_page :: Page where
  "no_match_page = search_page DefaultSleeper None 0 (Inr [])"

definition impatient_page :: Page where
  "impatient_page = search_page NotFoundSleeper (Some ErrElementNotFound) 0 (Inr [])"

definition no_match_result :: SearchResult where
  "no_match_result =
     \<lparr>DOMPerformSearchResult = Some \<lparr>SearchID = ''s3'', ResultCount = 0\<rparr>,
      sr_page = no_match_page, restore = (\<lambda>t. t @ [CallRestore]), First = None\<rparr>"

definition fetch_fatal_page :: Page where
  "fetch_fatal_page = search_page DefaultSleeper None 2 (Inl (ErrOther ''connection closed''))"

definition fetch_transient_page :: Page where
  "fetch_transient_page = search_page DefaultSleeper None 2 (Inl ErrSearchSessionNotFound)"

definition node_zero_page :: Page where
  "node_zero_page = search_page DefaultSleeper None 2 (Inr [0])"

text \<open>
  A page whose evaluation yields a remote array with three node-typed entries and the
  \<open>length\<close> and \<open>__proto__\<close> own-properties.
\<close>

definition array_object :: RuntimeRemoteObject where
  "array_object = \<lparr>Subtype = SubtypeArray, ObjectID = ''array''\<rparr>"

definition node_object :: "string \<Rightarrow> RuntimeRemoteObject" where
  "node_object name = \<lparr>Subtype = SubtypeNode, ObjectID = name\<rparr>"

definition array_properties :: "RuntimePropertyDescriptor list" where
  "array_properties =
     [\<lparr>Name = ''0'', Value = Some (node_object ''a'')\<rparr>,
      \<lparr>Name = ''1'', Value = Some (node_object ''b'')\<rparr>,
      \<lparr>Name = ''2'', Value = Some (node_object ''c'')\<rparr>,
      \<lparr>Name = ''length'', Value = Some \<lparr>Subtype = SubtypeNone, ObjectID = []\<rparr>\<rparr>,
      \<lparr>Name = ''__proto__'', Value = Some \<lparr>Subtype = SubtypeArray, ObjectID = ''proto''\<rparr>\<rparr>]"

definition array_page :: Page where
  "array_page =
     \<lparr>ctx = 0,
      sleeper = DefaultSleeper,
      on_Sleeper = (\<lambda>tr s c. None),
      on_DOMPerformSearch = (\<lambda>tr q shadow. Inl (ErrOther ''not used'')),
      on_DOMGetSearchResults = (\<lambda>tr searchID fromIndex toIndex. Inl (ErrOther ''not used'')),
      on_ElementFromNode = (\<lambda>tr nodeID. Inl (ErrOther ''not used'')),
      on_Evaluate = (\<lambda>tr opts. Inr array_object),
      on_RuntimeGetProperties = (\<lambda>tr objectID own. Inr array_properties),
      on_Release = (\<lambda>tr obj. None),
      on_ElementFromObject = (\<lambda>tr obj. Inr \<lparr>Object = obj, el_sleeper = DefaultSleeper\<rparr>)\<rparr>"

definition elements_js :: EvalOptions where
  "elements_js = \<lparr>JS = ''elements'', ByValue = True\<rparr>"

text \<open>
  The same page with an array that has an own-property without a value (an accessor
  property: the property descriptor carries no value for it).
\<close>

definition accessor_properties :: "RuntimePropertyDescriptor list" where
  "accessor_properties =
     [\<lparr>Name = ''0'', Value = Some (node_object ''a'')\<rparr>,
      \<lparr>Name = ''getter'', Value = None\<rparr>,
      \<lparr>Name = ''length'', Value = Some \<lparr>Subtype = SubtypeNone, ObjectID = []\<rparr>\<rparr>]"

definition accessor_page :: Page where
  "accessor_page = array_page\<lparr>on_RuntimeGetProperties := (\<lambda>tr objectID own. Inr accessor_properties)\<rparr>"

text \<open>
  Branch conditions and callbacks for races: conditions that find an element at once,
  never, only from the second tick on (\<open>found_b_later\<close>), or fail with a fatal error.
\<close>

definition element_a :: Element where
  "element_a = \<lparr>Object = node_object ''a'', el_sleeper = NotFoundSleeper\<rparr>"

definition element_b :: Element where
  "element_b = \<lparr>Object = node_object ''b'', el_sleeper = NotFoundSleeper\<rparr>"

definition found_a :: "Page \<Rightarrow> trace \<Rightarrow> Element option \<times> error option" where
  "found_a = (\<lambda>p tr. (Some element_a, None))"

definition found_b :: "Page \<Rightarrow> trace \<Rightarrow> Element option \<times> error option" where
  "found_b = (\<lambda>p tr. (Some element_b, None))"

definition found_b_later :: "Page \<Rightarrow> trace \<Rightarrow> Element option \<times> error option" where
  "found_b_later = (\<lambda>p tr. if length tr < 3 then (None, Some ErrElementNotFound) else (Some element_b, None))"

definition never_found :: "Page \<Rightarrow> trace \<Rightarrow> Element option \<times> error option" where
  "never_found = (\<lambda>p tr. (None, Some ErrElementNotFound))"

definition broken :: "Page \<Rightarrow> trace \<Rightarrow> Element option \<times> error option" where
  "broken = (\<lambda>p tr. (None, Some (ErrOther ''connection closed'')))"

definition callback_ok :: "Element \<Rightarrow> trace \<Rightarrow> error option" where
  "callback_ok = (\<lambda>el tr. None)"

definition callback_fails :: "Element \<Rightarrow> trace \<Rightarrow> error option" where
  "callback_fails = (\<lambda>el tr. Some (ErrOther ''callback failed''))"

definition race_ab :: RaceContext where
  "race_ab = \<lparr>rc_page = no_match_page,
              branches = [\<lparr>condition = found_a, callback = Some callback_ok\<rparr>,
                          \<lparr>condition = found_b, callback = None\<rparr>]\<rparr>"

definition race_ba :: RaceContext where
  "race_ba = \<lparr>rc_page = no_match_page,
              branches = [\<lparr>condition = found_b, callback = None\<rparr>,
                          \<lparr>condition = found_a, callback = Some callback_ok\<rparr>]\<rparr>"

definition race_later :: RaceContext where
  "race_later = \<lparr>rc_page = no_match_page,
                 branches = [\<lparr>condition = never_found, callback = Some callback_ok\<rparr>,
                             \<lparr>condition = found_b_later, callback = Some callback_fails\<rparr>]\<rparr>"

definition race_broken :: RaceContext where
  "race_broken = \<lparr>rc_page = no_match_page,
                  branches = [\<lparr>condition = never_found, callback = None\<rparr>,
                              \<lparr>condition = broken, callback = None\<rparr>,
                              \<lparr>condition = found_a, callback = None\<rparr>]\<rparr>"

definition found_page :: Page where
  "found_page = search_page DefaultSleeper None 2 (Inr [7])"

definition found_result :: SearchResult where
  "found_result =
     \<lparr>DOMPerformSearchResult = Some \<lparr>SearchID = ''s1'', ResultCount = 2\<rparr>,
      sr_page = found_page, restore = (\<lambda>t. t @ [CallRestore]), First = Some node_element\<rparr>"

definition retry_options ::
  "(unit \<Rightarrow> nat \<Rightarrow> error option \<times> nat) \<Rightarrow> int \<Rightarrow> (unit, nat) RetryOptions" where
  "retry_options sl n = \<lparr>Context = (), Sleeper = sl, MaxRetries = n\<rparr>"

section \<open>Properties of the bounded retry loop\<close>

lemma NewRetry_loop_done: "\<not> i < MaxRetries options \<Longrightarrow> NewRetry_loop options fn i s = (Inr None, s)"
  by simp

declare NewRetry_loop.simps [simp del]

lemma NewRetry_loop_step:
  "i < MaxRetries options \<Longrightarrow> NewRetry_loop options fn i s =
        (case fn s of
           (Inl p, s1) \<Rightarrow> (Inl p, s1)
         | (Inr (stop, err), s1) \<Rightarrow>
             if stop then (Inr err, s1)
             else (case Sleeper options (Context options) s1 of
                     (Some e, s2) \<Rightarrow> (Inr (Some e), s2)
                   | (None, s2) \<Rightarrow> NewRetry_loop options fn (i + 1) s2))"
  by (subst NewRetry_loop.simps) simp

lemma traced_options_simps [simp]:
  "MaxRetries (traced_options options) = MaxRetries options"
  "Context (traced_options options) = Context options"
  "Sleeper (traced_options options) c = traced SleeperCall (Sleeper options c)"
  by (simp_all add: traced_options_def)

lemma traced_apply: "traced ev f (s, tr) = (case f s of (r, s') \<Rightarrow> (r, (s', tr @ [ev r])))"
  by (simp add: traced_def)


lemma NewRetry_loop_trace:
  "NewRetry_loop (traced_options options) (traced FnCall fn) i (s, tr0) = (r, (s', tr)) \<Longrightarrow>
     \<exists>ext. tr = tr0 @ ext \<and>
       (\<forall>pre e post. ext = pre @ SleeperCall (Some e) # post \<longrightarrow> r = Inr (Some e) \<and> post = [])"
proof (induction "nat (MaxRetries options - i)" arbitrary: i s tr0)
  case 0
  then have "\<not> i < MaxRetries (traced_options options)" by simp
  with 0 show ?case by (simp add: NewRetry_loop_done)
next
  case (Suc n)
  then have lt: "i < MaxRetries (traced_options options)" by simp
  obtain r1 s1 where f: "fn s = (r1, s1)" by (cases "fn s")
  show ?case
  proof (cases r1)
    case (Inl p)
    with Suc.prems f lt show ?thesis
      by (auto simp add: NewRetry_loop_step traced_apply Cons_eq_append_conv)
  next
    case (Inr b)
    obtain stop err where b: "b = (stop, err)" by (cases b)
    show ?thesis
    proof (cases stop)
      case True
      with Suc.prems f lt Inr b show ?thesis
        by (auto simp add: NewRetry_loop_step traced_apply Cons_eq_append_conv)
    next
      case False
      obtain r2 s2 where sl: "Sleeper options (Context options) s1 = (r2, s2)"
        by (cases "Sleeper options (Context options) s1")
      show ?thesis
      proof (cases r2)
        case (Some e)
        with Suc.prems f lt Inr b False sl show ?thesis
          by (auto simp add: NewRetry_loop_step traced_apply Cons_eq_append_conv)
      next
        case None
        with Suc.prems f lt Inr b False sl
        have rec: "NewRetry_loop (traced_options options) (traced FnCall fn) (i + 1)
                     (s2, tr0 @ [FnCall r1, SleeperCall None]) = (r, (s', tr))"
          by (simp add: NewRetry_loop_step traced_apply)
        have "n = nat (MaxRetries options - (i + 1))" using Suc.hyps(2) by simp
        from Suc.hyps(1)[OF this rec] obtain ext where
          ext: "tr = (tr0 @ [FnCall r1, SleeperCall None]) @ ext"
          and last: "\<forall>pre e post. ext = pre @ SleeperCall (Some e) # post \<longrightarrow> r = Inr (Some e) \<and> post = []"
          by blast
        have "tr = tr0 @ (FnCall r1 # SleeperCall None # ext)" using ext by simp
        moreover have "\<forall>pre e post. FnCall r1 # SleeperCall None # ext = pre @ SleeperCall (Some e) # post
              \<longrightarrow> r = Inr (Some e) \<and> post = []"
          using last by (auto simp: Cons_eq_append_conv)
        ultimately show ?thesis by blast
      qed
    qed
  qed
qed


text \<open>
  Claim C7. Whatever the attempt bound, \<open>fn\<close> and the Sleeper are: if some Sleeper wait of
  a \<open>NewRetry\<close> run returns a failure \<open>e\<close> (it is wait \<open>j\<close> when \<open>j - 1\<close> waits precede it
  in the record), then \<open>NewRetry\<close> returns exactly \<open>e\<close>, and the failed wait is the last
  call of the run: neither \<open>fn\<close> nor the Sleeper is invoked again.
\<close>

theorem NewRetry_sleeper_failure_is_final:
  assumes "NewRetry (traced_options options) (traced FnCall fn) (s, []) = (r, (s', tr))"
    and "tr = pre @ SleeperCall (Some e) # post"
  shows "r = Inr (Some e) \<and> post = []"
  using NewRetry_loop_trace[of options fn 0 s "[]" r s' tr] assms
  by (simp add: NewRetry_def)

lemma retry_options_simps [simp]:
  "MaxRetries (retry_options sl n) = n"
  "Context (retry_options sl n) = ()"
  "Sleeper (retry_options sl n) = sl"
  by (simp_all add: retry_options_def)

theorem NewRetry_sleeper_failure_is_final_witness:
  "NewRetry (traced_options (retry_options (sleep_fails_at 2) 5)) (traced FnCall never_stop) (0, [])
     = (Inr (Some (ErrOther ''context canceled'')),
        (2, [FnCall (Inr (False, None)), SleeperCall None, FnCall (Inr (False, None)),
             SleeperCall (Some (ErrOther ''context canceled''))]))
   \<and> (Inr (Some (ErrOther ''context canceled'')) :: panic + error option) = Inr (Some (ErrOther ''context canceled''))
   \<and> ([] :: retry_event list) = []"
proof -
  have run: "NewRetry (traced_options (retry_options (sleep_fails_at 2) 5)) (traced FnCall never_stop) (0, [])
     = (Inr (Some (ErrOther ''context canceled'')),
        (2, [FnCall (Inr (False, None)), SleeperCall None, FnCall (Inr (False, None)),
             SleeperCall (Some (ErrOther ''context canceled''))]))"
    by (simp add: NewRetry_def NewRetry_loop_step traced_apply never_stop_def sleep_fails_at_def)
  have split: "[FnCall (Inr (False, None)), SleeperCall None, FnCall (Inr (False, None)),
             SleeperCall (Some (ErrOther ''context canceled''))]
      = [FnCall (Inr (False, None)), SleeperCall None, FnCall (Inr (False, None))]
          @ SleeperCall (Some (ErrOther ''context canceled'')) # []"
    by simp
  from NewRetry_sleeper_failure_is_final [OF run split] run show ?thesis by simp
qed

text \<open>
  Claim C1. With \<open>MaxRetries = 1\<close>, an \<open>fn\<close> that always answers \<open>(false, nil)\<close> and a
  Sleeper that always succeeds, \<open>NewRetry\<close> invokes \<open>fn\<close> once, returns \<open>nil\<close>, and invokes
  the Sleeper once, after the only and final attempt: one wait, where \<open>N - 1 = 0\<close> waits
  are claimed. The comments in the source say the same as the claim (the Sleeper is there
  "to wait between retries", "before the next retry"); after the final attempt no retry
  follows, and the loop waits all the same.
\<close>

theorem NewRetry_waits_after_final_attempt:
  "NewRetry (traced_options (retry_options sleep_ok 1)) (traced FnCall never_stop) (0, [])
     = (Inr None, (1, [FnCall (Inr (False, None)), SleeperCall None]))"
  by (simp add: NewRetry_def NewRetry_loop_step NewRetry_loop_done traced_apply never_stop_def sleep_ok_def)

text \<open>
  In general the loop waits after every attempt that did not stop, the final one
  included: \<open>N\<close> attempts that all answer \<open>(false, nil)\<close> come with \<open>N\<close> waits.
\<close>

lemma NewRetry_loop_never_stop:
  assumes fn: "\<And>s. fst (fn s) = Inr (False, None)"
    and sl: "\<And>s. fst (Sleeper options (Context options) s) = None"
  shows "\<exists>s'. NewRetry_loop (traced_options options) (traced FnCall fn) i (s, tr0)
           = (Inr None, (s', tr0 @ concat (replicate (nat (MaxRetries options - i))
                                            [FnCall (Inr (False, None)), SleeperCall None])))"
proof (induction "nat (MaxRetries options - i)" arbitrary: i s tr0)
  case 0
  then show ?case by (simp add: NewRetry_loop_done)
next
  case (Suc n)
  then have lt: "i < MaxRetries (traced_options options)" by simp
  obtain s1 where f: "fn s = (Inr (False, None), s1)" using fn[of s] by (cases "fn s") auto
  obtain s2 where w: "Sleeper options (Context options) s1 = (None, s2)"
    using sl[of s1] by (cases "Sleeper options (Context options) s1") auto
  have n: "n = nat (MaxRetries options - (i + 1))" using Suc.hyps(2) by simp
  have rep: "nat (MaxRetries options - i) = Suc (nat (MaxRetries options - (i + 1)))"
    using Suc.hyps(2) by simp
  from Suc.hyps(1)[OF n, of s2 "tr0 @ [FnCall (Inr (False, None)), SleeperCall None]"]
  show ?case using lt f w
    by (simp add: NewRetry_loop_step traced_apply rep)
qed

lemma NewRetry_never_stop:
  assumes "\<And>s. fst (fn s) = Inr (False, None)"
    and "\<And>s. fst (Sleeper options (Context options) s) = None"
  shows "\<exists>s'. NewRetry (traced_options options) (traced FnCall fn) (s, [])
           = (Inr None, (s', concat (replicate (nat (MaxRetries options))
                                            [FnCall (Inr (False, None)), SleeperCall None])))"
  using NewRetry_loop_never_stop[OF assms, where i = 0 and s = s and ?tr0.0 = "[]"] by (simp add: NewRetry_def)


text \<open>
  Rounds that ended in "retry" and a successful wait only move the loop on; and whatever
  \<open>fn\<close> and the Sleeper preserve holds of the state the loop ends in.
\<close>

lemma retries_NewRetry_loop:
  "retries fn (Sleeper options (Context options)) k s = Some s' \<Longrightarrow>
   i + int k \<le> MaxRetries options \<Longrightarrow>
   NewRetry_loop options fn i s = NewRetry_loop options fn (i + int k) s'"
proof (induction k arbitrary: i s)
  case 0
  then show ?case by simp
next
  case (Suc k)
  from Suc.prems(2) have lt: "i < MaxRetries options" by simp
  from Suc.prems(1) obtain err s1 s2 where
    f: "fn s = (Inr (False, err), s1)" and
    w: "Sleeper options (Context options) s1 = (None, s2)" and
    r: "retries fn (Sleeper options (Context options)) k s2 = Some s'"
    by (auto split: prod.splits sum.splits bool.splits option.splits)
  have "NewRetry_loop options fn i s = NewRetry_loop options fn (i + 1) s2"
    using lt f w by (simp add: NewRetry_loop_step)
  also have "\<dots> = NewRetry_loop options fn (i + 1 + int k) s'"
    using Suc.IH[OF r, of "i + 1"] Suc.prems(2) by simp
  also have "i + 1 + int k = i + int (Suc k)" by simp
  finally show ?case .
qed

lemma NewRetry_loop_invariant:
  assumes "I s"
    and "\<And>s r s'. I s \<Longrightarrow> fn s = (r, s') \<Longrightarrow> I s'"
    and "\<And>s r s'. I s \<Longrightarrow> Sleeper options (Context options) s = (r, s') \<Longrightarrow> I s'"
  shows "I (snd (NewRetry_loop options fn i s))"
  using assms(1)
proof (induction "nat (MaxRetries options - i)" arbitrary: i s)
  case 0
  then show ?case by (simp add: NewRetry_loop_done)
next
  case (Suc n)
  then have lt: "i < MaxRetries options" by simp
  have n: "n = nat (MaxRetries options - (i + 1))" using Suc.hyps(2) by simp
  obtain r1 s1 where f: "fn s = (r1, s1)" by (cases "fn s")
  have I1: "I s1" using assms(2)[OF Suc.prems f] .
  obtain r2 s2 where w: "Sleeper options (Context options) s1 = (r2, s2)"
    by (cases "Sleeper options (Context options) s1")
  have I2: "I s2" using assms(3)[OF I1 w] .
  have IH: "I (snd (NewRetry_loop options fn (i + 1) s2))" using Suc.hyps(1)[OF n I2] .
  show ?case using lt f w I1 I2 IH
    by (simp add: NewRetry_loop_step split: sum.splits prod.splits option.splits)
qed

section \<open>Properties of Search\<close>

lemma Search_retryOptions_simps [simp]:
  "MaxRetries (Search_retryOptions p) = 3"
  "Context (Search_retryOptions p) = ctx p"
  "Sleeper (Search_retryOptions p) = Search_sleeper p"
  by (simp_all add: Search_retryOptions_def)

lemma Search_sleeper_apply:
  "Search_sleeper p c (sr, tr) = (on_Sleeper p tr (sleeper p) c, (sr, tr @ [CallSleeper (sleeper p)]))"
  by (simp add: Search_sleeper_def sleeper_wait_def)

lemma Search_start_eq:
  "Search_start p tr =
     (\<lparr>DOMPerformSearchResult = None, sr_page = p, restore = (\<lambda>t. t @ [CallRestore]), First = None\<rparr>,
      tr @ [CallEnableDomain])"
  by (simp add: Search_start_def EnableDomain_def)

lemma discard_previous_simps:
  "DOMPerformSearchResult sr = None \<Longrightarrow> discard_previous p sr tr = tr"
  "DOMPerformSearchResult sr = Some prev \<Longrightarrow>
     discard_previous p sr tr = tr @ [CallDOMDiscardSearchResults (SearchID prev)]"
  by (simp_all add: discard_previous_def DOMDiscardSearchResults_Call_def)

lemma Search_attempt_perform_error:
  assumes "on_DOMPerformSearch p (discard_previous p sr tr) query True = Inl err"
  shows "Search_attempt p query (sr, tr) =
           (Inr (True, Some err), (sr, discard_previous p sr tr @ [CallDOMPerformSearch query True]))"
  using assms by (simp add: Search_attempt_def DOMPerformSearch_Call_def)

lemma Search_attempt_zero:
  assumes "on_DOMPerformSearch p (discard_previous p sr tr) query True = Inr res"
    and "ResultCount res = 0"
  shows "Search_attempt p query (sr, tr) =
           (Inr (False, None),
            (sr\<lparr>DOMPerformSearchResult := Some res\<rparr>,
             discard_previous p sr tr @ [CallDOMPerformSearch query True]))"
  using assms by (simp add: Search_attempt_def DOMPerformSearch_Call_def)

lemma Search_attempt_fetch_error:
  assumes "on_DOMPerformSearch p (discard_previous p sr tr) query True = Inr res"
    and "ResultCount res \<noteq> 0"
    and "on_DOMGetSearchResults p (discard_previous p sr tr @ [CallDOMPerformSearch query True])
           (SearchID res) 0 1 = Inl err"
  shows "Search_attempt p query (sr, tr) =
           (Inr (if errors_Is err ErrCtxNotFound \<or> errors_Is err ErrSearchSessionNotFound
                 then (False, None) else (True, Some err)),
            (sr\<lparr>DOMPerformSearchResult := Some res\<rparr>,
             discard_previous p sr tr @
               [CallDOMPerformSearch query True, CallDOMGetSearchResults (SearchID res) 0 1]))"
  using assms by (simp add: Search_attempt_def DOMPerformSearch_Call_def DOMGetSearchResults_Call_def)

lemma Search_attempt_fetched:
  assumes "on_DOMPerformSearch p (discard_previous p sr tr) query True = Inr res"
    and "ResultCount res \<noteq> 0"
    and "on_DOMGetSearchResults p (discard_previous p sr tr @ [CallDOMPerformSearch query True])
           (SearchID res) 0 1 = Inr NodeIds"
  shows "Search_attempt p query (sr, tr) =
     (let sr1 = sr\<lparr>DOMPerformSearchResult := Some res\<rparr>;
          tr3 = discard_previous p sr tr @
               [CallDOMPerformSearch query True, CallDOMGetSearchResults (SearchID res) 0 1]
      in case NodeIds of
           [] \<Rightarrow> (Inl IndexOutOfRange, (sr1, tr3))
         | nodeID # _ \<Rightarrow>
             if nodeID = 0 then (Inr (False, None), (sr1, tr3 @ [CallDOMGetDocument]))
             else (case on_ElementFromNode p tr3 nodeID of
                     Inl err \<Rightarrow> (Inr (True, Some err), (sr1, tr3 @ [CallElementFromNode nodeID]))
                   | Inr el \<Rightarrow> (Inr (True, None), (sr1\<lparr>First := Some el\<rparr>, tr3 @ [CallElementFromNode nodeID]))))"
  using assms
  by (simp add: Search_attempt_def DOMPerformSearch_Call_def DOMGetSearchResults_Call_def
      DOMGetDocument_Call_def ElementFromNode_def Let_def split: list.splits sum.splits)

text \<open>
  Claim C2, amended. For every query whose every \<open>DOMPerformSearch\<close> call succeeds with
  result count 0, and provided every Sleeper wait succeeds, \<open>Search\<close> runs exactly three
  attempts and returns a non-nil \<open>SearchResult\<close> with \<open>First == nil\<close> and a nil error. The
  first attempt issues no discard; the second and the third each begin by discarding the
  session of the attempt before (a prior \<open>DOMPerformSearchResult\<close> exists then). After the
  third search no further protocol call is made (\<open>w\<close> holds Sleeper waits only).
\<close>

theorem Search_no_match:
  assumes zero: "\<And>tr. \<exists>res. on_DOMPerformSearch p tr query True = Inr res \<and> ResultCount res = 0"
    and wait: "\<And>tr. on_Sleeper p tr (sleeper p) (ctx p) = None"
  shows "\<exists>r1 r2 r3 t1 t2 t3 sr w.
      t1 = tr @ [CallEnableDomain]
    \<and> on_DOMPerformSearch p t1 query True = Inr r1
    \<and> t2 = t1 @ [CallDOMPerformSearch query True, CallSleeper (sleeper p),
                 CallDOMDiscardSearchResults (SearchID r1)]
    \<and> on_DOMPerformSearch p t2 query True = Inr r2
    \<and> t3 = t2 @ [CallDOMPerformSearch query True, CallSleeper (sleeper p),
                 CallDOMDiscardSearchResults (SearchID r2)]
    \<and> on_DOMPerformSearch p t3 query True = Inr r3
    \<and> Search p query tr = (Inr (Some sr, None), t3 @ CallDOMPerformSearch query True # w)
    \<and> set w \<subseteq> {CallSleeper (sleeper p)}
    \<and> First sr = None
    \<and> DOMPerformSearchResult sr = Some r3"
proof -
  define sr0 where "sr0 = \<lparr>DOMPerformSearchResult = None, sr_page = p,
     restore = (\<lambda>t. t @ [CallRestore]), First = None\<rparr>"
  define t1 where "t1 = tr @ [CallEnableDomain]"
  obtain r1 where r1: "on_DOMPerformSearch p t1 query True = Inr r1" "ResultCount r1 = 0"
    using zero[of t1] by blast
  define t2 where "t2 = t1 @ [CallDOMPerformSearch query True, CallSleeper (sleeper p),
                 CallDOMDiscardSearchResults (SearchID r1)]"
  obtain r2 where r2: "on_DOMPerformSearch p t2 query True = Inr r2" "ResultCount r2 = 0"
    using zero[of t2] by blast
  define t3 where "t3 = t2 @ [CallDOMPerformSearch query True, CallSleeper (sleeper p),
                 CallDOMDiscardSearchResults (SearchID r2)]"
  obtain r3 where r3: "on_DOMPerformSearch p t3 query True = Inr r3" "ResultCount r3 = 0"
    using zero[of t3] by blast
  have a1: "Search_attempt p query (sr0, t1) =
      (Inr (False, None), (sr0\<lparr>DOMPerformSearchResult := Some r1\<rparr>, t1 @ [CallDOMPerformSearch query True]))"
    using Search_attempt_zero[of p sr0 t1 query r1] r1
    by (simp add: discard_previous_simps sr0_def)
  have a2: "Search_attempt p query (sr0\<lparr>DOMPerformSearchResult := Some r1\<rparr>,
         t1 @ [CallDOMPerformSearch query True, CallSleeper (sleeper p)]) =
      (Inr (False, None), (sr0\<lparr>DOMPerformSearchResult := Some r2\<rparr>, t2 @ [CallDOMPerformSearch query True]))"
    using Search_attempt_zero[of p "sr0\<lparr>DOMPerformSearchResult := Some r1\<rparr>"
        "t1 @ [CallDOMPerformSearch query True, CallSleeper (sleeper p)]" query r2] r2
    by (simp add: discard_previous_simps t2_def)
  have a3: "Search_attempt p query (sr0\<lparr>DOMPerformSearchResult := Some r2\<rparr>,
         t2 @ [CallDOMPerformSearch query True, CallSleeper (sleeper p)]) =
      (Inr (False, None), (sr0\<lparr>DOMPerformSearchResult := Some r3\<rparr>, t3 @ [CallDOMPerformSearch query True]))"
    using Search_attempt_zero[of p "sr0\<lparr>DOMPerformSearchResult := Some r2\<rparr>"
        "t2 @ [CallDOMPerformSearch query True, CallSleeper (sleeper p)]" query r3] r3
    by (simp add: discard_previous_simps t3_def)
  have run: "NewRetry (Search_retryOptions p) (Search_attempt p query) (sr0, t1) =
      (Inr None, (sr0\<lparr>DOMPerformSearchResult := Some r3\<rparr>,
                  t3 @ [CallDOMPerformSearch query True, CallSleeper (sleeper p)]))"
    using a1 a2 a3 wait
    by (simp
        add: NewRetry_def NewRetry_loop_step NewRetry_loop_done Search_sleeper_apply)
  have "Search p query tr = (Inr (Some (sr0\<lparr>DOMPerformSearchResult := Some r3\<rparr>), None),
           t3 @ CallDOMPerformSearch query True # [CallSleeper (sleeper p)])"
    using run by (simp add: Search_def Search_start_eq sr0_def t1_def)
  moreover have "First (sr0\<lparr>DOMPerformSearchResult := Some r3\<rparr>) = None" by (simp add: sr0_def)
  ultimately show ?thesis using r1 r2 r3 t1_def t2_def t3_def
    by (intro exI[of _ r1] exI[of _ r2] exI[of _ r3] exI[of _ t1] exI[of _ t2] exI[of _ t3]
        exI[of _ "sr0\<lparr>DOMPerformSearchResult := Some r3\<rparr>"] exI[of _ "[CallSleeper (sleeper p)]"]) simp
qed

lemma search_page_simps [simp]:
  "sleeper (search_page sl wait count fetched) = sl"
  "ctx (search_page sl wait count fetched) = 0"
  "on_Sleeper (search_page sl wait count fetched) tr s c = wait"
  "on_DOMPerformSearch (search_page sl wait count fetched) tr q shadow =
     Inr \<lparr>SearchID = session_name tr, ResultCount = count\<rparr>"
  "on_DOMGetSearchResults (search_page sl wait count fetched) tr sid a b = fetched"
  "on_ElementFromNode (search_page sl wait count fetched) tr n = Inr node_element"
  by (simp_all add: search_page_def)

text \<open>
  Claim C2 as stated fails when a Sleeper wait fails. On a page whose Sleeper reports
  not-found at once (the policy \<open>RaceContext.Do\<close> hands to its branches) and whose searches
  all succeed with result count 0, \<open>Search\<close> makes one attempt and returns a nil
  \<open>SearchResult\<close> with the Sleeper's error.
\<close>

theorem Search_no_match_counterexample:
  "Search impatient_page ''q'' [] =
     (Inr (None, Some ErrElementNotFound),
      [CallEnableDomain, CallDOMPerformSearch ''q'' True, CallSleeper NotFoundSleeper])"
  by (simp add: impatient_page_def Search_def Search_start_eq NewRetry_def NewRetry_loop_step
      Search_attempt_zero discard_previous_simps Search_sleeper_apply)

theorem Search_no_match_witness:
  "\<exists>r1 r2 r3 t1 t2 t3 sr w.
      t1 = [] @ [CallEnableDomain]
    \<and> on_DOMPerformSearch no_match_page t1 ''q'' True = Inr r1
    \<and> t2 = t1 @ [CallDOMPerformSearch ''q'' True, CallSleeper (sleeper no_match_page),
                 CallDOMDiscardSearchResults (SearchID r1)]
    \<and> on_DOMPerformSearch no_match_page t2 ''q'' True = Inr r2
    \<and> t3 = t2 @ [CallDOMPerformSearch ''q'' True, CallSleeper (sleeper no_match_page),
                 CallDOMDiscardSearchResults (SearchID r2)]
    \<and> on_DOMPerformSearch no_match_page t3 ''q'' True = Inr r3
    \<and> Search no_match_page ''q'' [] = (Inr (Some sr, None), t3 @ CallDOMPerformSearch ''q'' True # w)
    \<and> set w \<subseteq> {CallSleeper (sleeper no_match_page)}
    \<and> First sr = None
    \<and> DOMPerformSearchResult sr = Some r3"
proof -
  have zero: "\<And>tr. \<exists>res. on_DOMPerformSearch no_match_page tr ''q'' True = Inr res \<and> ResultCount res = 0"
    by (simp add: no_match_page_def)
  have wait: "\<And>tr. on_Sleeper no_match_page tr (sleeper no_match_page) (ctx no_match_page) = None"
    by (simp add: no_match_page_def)
  show ?thesis using Search_no_match [of no_match_page "''q''" "[]", OF zero wait] .
qed

lemma no_match_run:
  "Search no_match_page ''q'' [] =
     (Inr (Some no_match_result, None),
      [CallEnableDomain, CallDOMPerformSearch ''q'' True, CallSleeper DefaultSleeper,
       CallDOMDiscardSearchResults ''s1'', CallDOMPerformSearch ''q'' True, CallSleeper DefaultSleeper,
       CallDOMDiscardSearchResults ''s2'', CallDOMPerformSearch ''q'' True, CallSleeper DefaultSleeper])"
  by (simp add: no_match_page_def no_match_result_def Search_def Search_start_eq NewRetry_def NewRetry_loop_step
      NewRetry_loop_done Search_attempt_zero discard_previous_simps Search_sleeper_apply session_name_def)

lemma NewRetry_loop_stops:
  assumes "i < MaxRetries options" and "fn s = (Inr (True, err), s1)"
  shows "NewRetry_loop options fn i s = (Inr err, s1)"
  using assms by (simp add: NewRetry_loop_step)

text \<open>
  Claim C4. In any attempt of \<open>Search\<close> (the attempt after \<open>k < 3\<close> rounds of retry), when
  the search reports a non-zero count and fetching the first result fails with \<open>err\<close>:
  if \<open>err\<close> is "context not found" or "search session not found", the attempt signals
  retry (\<open>stop = false\<close>, nil error) and its calls end with the failed fetch, so nothing
  is discarded in response; otherwise the attempt signals \<open>stop = true\<close> with \<open>err\<close>, and
  \<open>Search\<close> returns a nil \<open>SearchResult\<close> and \<open>err\<close> unchanged, with no further call.
\<close>

theorem Search_fetch_error:
  assumes reached: "retries (Search_attempt p query) (Search_sleeper p (ctx p)) k (Search_start p tr0)
                      = Some (sr, tr)"
    and k: "k < 3"
    and perform: "on_DOMPerformSearch p (discard_previous p sr tr) query True = Inr res"
    and count: "ResultCount res \<noteq> 0"
    and fetch: "on_DOMGetSearchResults p (discard_previous p sr tr @ [CallDOMPerformSearch query True])
                  (SearchID res) 0 1 = Inl err"
  shows "if errors_Is err ErrCtxNotFound \<or> errors_Is err ErrSearchSessionNotFound
         then Search_attempt p query (sr, tr) =
                (Inr (False, None),
                 (sr\<lparr>DOMPerformSearchResult := Some res\<rparr>,
                  discard_previous p sr tr @
                    [CallDOMPerformSearch query True, CallDOMGetSearchResults (SearchID res) 0 1]))
         else Search_attempt p query (sr, tr) =
                (Inr (True, Some err),
                 (sr\<lparr>DOMPerformSearchResult := Some res\<rparr>,
                  discard_previous p sr tr @
                    [CallDOMPerformSearch query True, CallDOMGetSearchResults (SearchID res) 0 1]))
              \<and> Search p query tr0 =
                  (Inr (None, Some err),
                   discard_previous p sr tr @
                     [CallDOMPerformSearch query True, CallDOMGetSearchResults (SearchID res) 0 1])"
proof (cases "errors_Is err ErrCtxNotFound \<or> errors_Is err ErrSearchSessionNotFound")
  case True
  then show ?thesis using Search_attempt_fetch_error[OF perform count fetch] by simp
next
  case False
  let ?st = "(sr\<lparr>DOMPerformSearchResult := Some res\<rparr>,
              discard_previous p sr tr @
                [CallDOMPerformSearch query True, CallDOMGetSearchResults (SearchID res) 0 1])"
  have att: "Search_attempt p query (sr, tr) = (Inr (True, Some err), ?st)"
    using Search_attempt_fetch_error[OF perform count fetch] False by simp
  have "NewRetry_loop (Search_retryOptions p) (Search_attempt p query) 0 (Search_start p tr0)
          = NewRetry_loop (Search_retryOptions p) (Search_attempt p query) (0 + int k) (sr, tr)"
    using reached k by (intro retries_NewRetry_loop) simp_all
  also have "\<dots> = (Inr (Some err), ?st)"
    using k att by (intro NewRetry_loop_stops) simp_all
  finally have "Search p query tr0 = (Inr (None, Some err), snd ?st)"
    by (simp add: Search_def NewRetry_def)
  with att False show ?thesis by simp
qed

theorem Search_fetch_error_witness:
  "Search_attempt fetch_transient_page ''q'' (Search_start fetch_transient_page []) =
     (Inr (False, None),
      (fst (Search_start fetch_transient_page [])
         \<lparr>DOMPerformSearchResult := Some \<lparr>SearchID = ''s1'', ResultCount = 2\<rparr>\<rparr>,
       [CallEnableDomain, CallDOMPerformSearch ''q'' True, CallDOMGetSearchResults ''s1'' 0 1]))
   \<and> Search_attempt fetch_fatal_page ''q'' (Search_start fetch_fatal_page []) =
     (Inr (True, Some (ErrOther ''connection closed'')),
      (fst (Search_start fetch_fatal_page [])
         \<lparr>DOMPerformSearchResult := Some \<lparr>SearchID = ''s1'', ResultCount = 2\<rparr>\<rparr>,
       [CallEnableDomain, CallDOMPerformSearch ''q'' True, CallDOMGetSearchResults ''s1'' 0 1]))
   \<and> Search fetch_fatal_page ''q'' [] =
     (Inr (None, Some (ErrOther ''connection closed'')),
      [CallEnableDomain, CallDOMPerformSearch ''q'' True, CallDOMGetSearchResults ''s1'' 0 1])"
proof -
  let ?res = "\<lparr>SearchID = ''s1'', ResultCount = 2\<rparr>"
  have a: "retries (Search_attempt fetch_transient_page ''q'') (Search_sleeper fetch_transient_page (ctx fetch_transient_page)) 0
             (Search_start fetch_transient_page [])
           = Some (fst (Search_start fetch_transient_page []), [CallEnableDomain])"
    by (simp add: Search_start_eq)
  have b: "retries (Search_attempt fetch_fatal_page ''q'') (Search_sleeper fetch_fatal_page (ctx fetch_fatal_page)) 0
             (Search_start fetch_fatal_page [])
           = Some (fst (Search_start fetch_fatal_page []), [CallEnableDomain])"
    by (simp add: Search_start_eq)
  have k: "(0::nat) < 3" by simp
  have pa: "on_DOMPerformSearch fetch_transient_page
              (discard_previous fetch_transient_page (fst (Search_start fetch_transient_page [])) [CallEnableDomain])
              ''q'' True = Inr ?res"
    by (simp add: fetch_transient_page_def Search_start_eq discard_previous_simps session_name_def)
  have pb: "on_DOMPerformSearch fetch_fatal_page
              (discard_previous fetch_fatal_page (fst (Search_start fetch_fatal_page [])) [CallEnableDomain])
              ''q'' True = Inr ?res"
    by (simp add: fetch_fatal_page_def Search_start_eq discard_previous_simps session_name_def)
  have c: "ResultCount ?res \<noteq> 0" by simp
  have fa: "on_DOMGetSearchResults fetch_transient_page
              (discard_previous fetch_transient_page (fst (Search_start fetch_transient_page [])) [CallEnableDomain]
                 @ [CallDOMPerformSearch ''q'' True]) (SearchID ?res) 0 1 = Inl ErrSearchSessionNotFound"
    by (simp add: fetch_transient_page_def)
  have fb: "on_DOMGetSearchResults fetch_fatal_page
              (discard_previous fetch_fatal_page (fst (Search_start fetch_fatal_page [])) [CallEnableDomain]
                 @ [CallDOMPerformSearch ''q'' True]) (SearchID ?res) 0 1 = Inl (ErrOther ''connection closed'')"
    by (simp add: fetch_fatal_page_def)
  from Search_fetch_error [OF a k pa c fa] Search_fetch_error [OF b k pb c fb]
  show ?thesis by (simp add: Search_start_eq discard_previous_simps)
qed

lemma Search_attempt_cases:
  assumes "Search_attempt p query (sr, tr) = (r, (sr1, tr1))"
  shows "restore sr1 = restore sr \<and> sr_page sr1 = sr_page sr
       \<and> ((\<exists>e. r = Inr (False, e)) \<or> r = Inr (True, None) \<longrightarrow> DOMPerformSearchResult sr1 \<noteq> None)
       \<and> (\<exists>ext. tr1 = tr @ ext \<and> CallElementFromNode 0 \<notin> set ext)"
  using assms
  by (auto simp: Search_attempt_def Let_def discard_previous_def DOMDiscardSearchResults_Call_def
      DOMPerformSearch_Call_def DOMGetSearchResults_Call_def DOMGetDocument_Call_def
      ElementFromNode_def
      split: option.splits sum.splits list.splits if_splits prod.splits)

lemma Search_attempt_First:
  assumes "Search_attempt p query (sr, tr) = (r, (sr1, tr1))"
  shows "First sr1 = First sr \<or>
         (\<exists>t nodeID el. nodeID \<noteq> 0 \<and> on_ElementFromNode p t nodeID = Inr el \<and> First sr1 = Some el)"
  using assms
  apply (auto simp: Search_attempt_def Let_def DOMPerformSearch_Call_def DOMGetSearchResults_Call_def
      DOMGetDocument_Call_def ElementFromNode_def
      split: sum.splits list.splits if_splits prod.splits)
   apply blast+
  done

lemma Search_inv_start: "Search_inv p tr0 (Search_start p tr0)"
  by (simp add: Search_inv_def Search_start_eq)

lemma Search_inv_attempt:
  assumes "Search_inv p tr0 s" and "Search_attempt p query s = (r, s')"
  shows "Search_inv p tr0 s'"
proof -
  obtain sr tr where s: "s = (sr, tr)" by (cases s)
  obtain sr1 tr1 where s': "s' = (sr1, tr1)" by (cases s')
  from assms(2) have att: "Search_attempt p query (sr, tr) = (r, (sr1, tr1))" by (simp add: s s')
  from assms(1) have inv:
    "restore sr = (\<lambda>t. t @ [CallRestore])" "sr_page sr = p"
    "\<exists>ext. tr = tr0 @ ext \<and> CallElementFromNode 0 \<notin> set ext"
    "\<forall>el. First sr = Some el \<longrightarrow>
           (\<exists>t nodeID. nodeID \<noteq> 0 \<and> on_ElementFromNode p t nodeID = Inr el)"
    by (simp_all add: Search_inv_def s)
  from Search_attempt_cases[OF att] inv(1,2)
  have a: "restore sr1 = (\<lambda>t. t @ [CallRestore])" "sr_page sr1 = p" by simp_all
  from Search_attempt_cases[OF att] inv(3)
  have b: "\<exists>ext. tr1 = tr0 @ ext \<and> CallElementFromNode 0 \<notin> set ext" by auto
  from Search_attempt_First[OF att] inv(4)
  have c: "\<forall>el. First sr1 = Some el \<longrightarrow>
           (\<exists>t nodeID. nodeID \<noteq> 0 \<and> on_ElementFromNode p t nodeID = Inr el)"
  proof (elim disjE exE conjE)
    assume "First sr1 = First sr"
    with inv(4) show ?thesis by simp
  next
    fix t nodeID el
    assume "nodeID \<noteq> 0" "on_ElementFromNode p t nodeID = Inr el" "First sr1 = Some el"
    then show ?thesis by auto
  qed
  from a b c show ?thesis by (simp add: Search_inv_def s')
qed

lemma Search_inv_sleeper:
  assumes "Search_inv p tr0 s" and "Search_sleeper p c s = (r, s')"
  shows "Search_inv p tr0 s'"
  using assms by (cases s) (auto simp: Search_inv_def Search_sleeper_apply)

lemma Search_inv_end:
  "Search_inv p tr0 (snd (NewRetry (Search_retryOptions p) (Search_attempt p query) (Search_start p tr0)))"
  unfolding NewRetry_def
  by (rule NewRetry_loop_invariant[where I = "Search_inv p tr0"])
     (auto intro: Search_inv_start Search_inv_attempt Search_inv_sleeper)

lemma NewRetry_loop_nil_result:
  assumes "I s" and "Q s \<or> i < MaxRetries options"
    and "NewRetry_loop options fn i s = (Inr None, s')"
    and fn: "\<And>s r s1. I s \<Longrightarrow> fn s = (r, s1) \<Longrightarrow>
               I s1 \<and> ((\<exists>e. r = Inr (False, e)) \<or> r = Inr (True, None) \<longrightarrow> Q s1)"
    and sl: "\<And>s r s1. I s \<Longrightarrow> Sleeper options (Context options) s = (r, s1) \<Longrightarrow>
               I s1 \<and> (Q s \<longrightarrow> Q s1)"
  shows "Q s'"
  using assms(1-3)
proof (induction "nat (MaxRetries options - i)" arbitrary: i s)
  case 0
  then show ?case by (simp add: NewRetry_loop_done)
next
  case (Suc n)
  then have lt: "i < MaxRetries options" by simp
  have n: "n = nat (MaxRetries options - (i + 1))" using Suc.hyps(2) by simp
  obtain r1 s1 where f: "fn s = (r1, s1)" by (cases "fn s")
  note F = fn[OF Suc.prems(1) f]
  obtain r2 s2 where w: "Sleeper options (Context options) s1 = (r2, s2)"
    by (cases "Sleeper options (Context options) s1")
  note W = sl[OF conjunct1[OF F] w]
  show ?case
  proof (cases r1)
    case (Inl pn)
    with Suc.prems(3) lt f show ?thesis by (simp add: NewRetry_loop_step)
  next
    case (Inr b)
    obtain stop err where b: "b = (stop, err)" by (cases b)
    show ?thesis
    proof (cases stop)
      case True
      with Suc.prems(3) lt f Inr b F show ?thesis by (simp add: NewRetry_loop_step)
    next
      case False
      with F Inr b have Q1: "Q s1" by simp
      show ?thesis
      proof (cases r2)
        case (Some e)
        with Suc.prems(3) lt f Inr b False w show ?thesis by (simp add: NewRetry_loop_step)
      next
        case None
        with Suc.prems(3) lt f Inr b False w
        have rec: "NewRetry_loop options fn (i + 1) s2 = (Inr None, s')"
          by (simp add: NewRetry_loop_step)
        from W Q1 have "I s2" "Q s2 \<or> i + 1 < MaxRetries options" by simp_all
        from Suc.hyps(1)[OF n this rec] show ?thesis .
      qed
    qed
  qed
qed

text \<open>
  Claim C9. Every \<open>SearchResult\<close> that \<open>Search\<close> returns with a nil error carries a non-nil
  embedded \<open>DOMPerformSearchResult\<close>, whether or not an attempt produced a first node; so
  \<open>Release\<close> on it, at any later time, runs the restore action and then issues the discard
  of that result's \<open>SearchID\<close>, without a nil dereference.
\<close>

theorem Search_result_release:
  assumes "Search p query tr0 = (Inr (Some sr, None), tr')"
  shows "\<exists>res. DOMPerformSearchResult sr = Some res
           \<and> SearchResult_Release sr t =
               (Inr (), t @ [CallRestore, CallDOMDiscardSearchResults (SearchID res)])"
proof -
  from assms have run: "NewRetry_loop (Search_retryOptions p) (Search_attempt p query) 0 (Search_start p tr0)
      = (Inr None, (sr, tr'))"
    by (auto simp: Search_def NewRetry_def split: prod.splits sum.splits option.splits)
  have inv: "Search_inv p tr0 (sr, tr')"
    using Search_inv_end[of p tr0 query] run by (simp add: NewRetry_def)
  have "(\<lambda>(sr, tr). DOMPerformSearchResult sr \<noteq> None) (sr, tr')"
  proof (rule NewRetry_loop_nil_result[where I = "\<lambda>s. True" and i = 0 and s = "Search_start p tr0",
        OF _ _ run])
    show "(case Search_start p tr0 of (sr, tr) \<Rightarrow> DOMPerformSearchResult sr \<noteq> None)
            \<or> 0 < MaxRetries (Search_retryOptions p)" by simp
  next
    fix s r s1 assume "Search_attempt p query s = (r, s1)"
    then show "True \<and> ((\<exists>e. r = Inr (False, e)) \<or> r = Inr (True, None) \<longrightarrow>
                 (case s1 of (sr, tr) \<Rightarrow> DOMPerformSearchResult sr \<noteq> None))"
      using Search_attempt_cases[of p query "fst s" "snd s" r "fst s1" "snd s1"]
      by (cases s1) auto
  next
    fix s r s1 assume "Sleeper (Search_retryOptions p) (Context (Search_retryOptions p)) s = (r, s1)"
    then show "True \<and> ((case s of (sr, tr) \<Rightarrow> DOMPerformSearchResult sr \<noteq> None) \<longrightarrow>
                 (case s1 of (sr, tr) \<Rightarrow> DOMPerformSearchResult sr \<noteq> None))"
      by (cases s) (auto simp: Search_sleeper_apply)
  qed simp
  then obtain res where res: "DOMPerformSearchResult sr = Some res" by auto
  from inv have "restore sr = (\<lambda>t. t @ [CallRestore])" by (simp add: Search_inv_def)
  with res show ?thesis
    by (simp add: SearchResult_Release_def DOMDiscardSearchResults_Call_def)
qed

theorem Search_result_release_witness:
  "\<exists>res. DOMPerformSearchResult no_match_result = Some res
           \<and> SearchResult_Release no_match_result [] =
               (Inr (), [] @ [CallRestore, CallDOMDiscardSearchResults (SearchID res)])"
  using Search_result_release [OF no_match_run, of "[]"] .

text \<open>
  Claim C5. In an attempt whose search reports a positive count and whose fetched first
  node identifier is 0, the attempt issues \<open>DOMGetDocument\<close> right after the fetch and
  signals retry (\<open>stop = false\<close>, nil error). And \<open>Search\<close>, on any page and query, never
  asks for the element of node identifier 0, and a \<open>First\<close> it returns was made for a
  non-zero node identifier.
\<close>

theorem Search_node_zero:
  assumes perform: "on_DOMPerformSearch p (discard_previous p sr tr) query True = Inr res"
    and count: "0 < ResultCount res"
    and fetch: "on_DOMGetSearchResults p (discard_previous p sr tr @ [CallDOMPerformSearch query True])
                  (SearchID res) 0 1 = Inr (0 # ids)"
  shows "Search_attempt p query (sr, tr) =
           (Inr (False, None),
            (sr\<lparr>DOMPerformSearchResult := Some res\<rparr>,
             discard_previous p sr tr @
               [CallDOMPerformSearch query True, CallDOMGetSearchResults (SearchID res) 0 1,
                CallDOMGetDocument]))
       \<and> (\<exists>ext. snd (Search p' query' tr0) = tr0 @ ext \<and> CallElementFromNode 0 \<notin> set ext)
       \<and> (\<forall>found el. fst (Search p' query' tr0) = Inr (Some found, None) \<and> First found = Some el \<longrightarrow>
             (\<exists>t nodeID. nodeID \<noteq> 0 \<and> on_ElementFromNode p' t nodeID = Inr el))"
proof -
  have c: "ResultCount res \<noteq> 0" using count by simp
  have att: "Search_attempt p query (sr, tr) =
           (Inr (False, None),
            (sr\<lparr>DOMPerformSearchResult := Some res\<rparr>,
             discard_previous p sr tr @
               [CallDOMPerformSearch query True, CallDOMGetSearchResults (SearchID res) 0 1,
                CallDOMGetDocument]))"
    using Search_attempt_fetched[OF perform c fetch] by simp
  obtain r srf trf where run:
    "NewRetry (Search_retryOptions p') (Search_attempt p' query') (Search_start p' tr0) = (r, (srf, trf))"
    by (metis surj_pair)
  have inv: "Search_inv p' tr0 (srf, trf)" using Search_inv_end[of p' tr0 query'] run by simp
  have tr: "snd (Search p' query' tr0) = trf"
    using run by (simp add: Search_def split: sum.splits option.splits)
  have res: "fst (Search p' query' tr0) = Inr (Some found, None) \<Longrightarrow> found = srf" for found
    using run by (simp add: Search_def split: sum.splits option.splits)
  from inv tr res att show ?thesis by (auto simp: Search_inv_def)
qed

lemma found_run:
  "Search found_page ''q'' [] =
     (Inr (Some found_result, None),
      [CallEnableDomain, CallDOMPerformSearch ''q'' True, CallDOMGetSearchResults ''s1'' 0 1,
       CallElementFromNode 7])"
  by (simp add: found_page_def found_result_def Search_def Search_start_eq NewRetry_def
      NewRetry_loop_step Search_attempt_fetched discard_previous_simps session_name_def)

theorem Search_node_zero_witness:
  "Search_attempt node_zero_page ''q'' (Search_start node_zero_page []) =
     (Inr (False, None),
      (fst (Search_start node_zero_page [])
         \<lparr>DOMPerformSearchResult := Some \<lparr>SearchID = ''s1'', ResultCount = 2\<rparr>\<rparr>,
       [CallEnableDomain, CallDOMPerformSearch ''q'' True, CallDOMGetSearchResults ''s1'' 0 1,
        CallDOMGetDocument]))
   \<and> (\<exists>ext. snd (Search found_page ''q'' []) = [] @ ext \<and> CallElementFromNode 0 \<notin> set ext)
   \<and> (\<exists>t nodeID. nodeID \<noteq> 0 \<and> on_ElementFromNode found_page t nodeID = Inr node_element)"
proof -
  let ?res = "\<lparr>SearchID = ''s1'', ResultCount = 2\<rparr>"
  have p: "on_DOMPerformSearch node_zero_page
             (discard_previous node_zero_page (fst (Search_start node_zero_page [])) [CallEnableDomain])
             ''q'' True = Inr ?res"
    by (simp add: node_zero_page_def Search_start_eq discard_previous_simps session_name_def)
  have c: "0 < ResultCount ?res" by simp
  have f: "on_DOMGetSearchResults node_zero_page
             (discard_previous node_zero_page (fst (Search_start node_zero_page [])) [CallEnableDomain]
                @ [CallDOMPerformSearch ''q'' True]) (SearchID ?res) 0 1 = Inr (0 # [])"
    by (simp add: node_zero_page_def)
  have found: "fst (Search found_page ''q'' []) = Inr (Some found_result, None)
                 \<and> First found_result = Some node_element"
    by (simp add: found_run) (simp add: found_result_def)
  from Search_node_zero [OF p c f, of found_page "''q''" "[]"] found show ?thesis
    by (simp add: Search_start_eq discard_previous_simps)
qed

section \<open>Properties of ElementsByJS\<close>

lemma own_entries_simps [simp]:
  "own_entries [] = []"
  "Name obj = ''__proto__'' \<or> Name obj = ''length'' \<Longrightarrow> own_entries (obj # rest) = own_entries rest"
  "\<not> (Name obj = ''__proto__'' \<or> Name obj = ''length'') \<Longrightarrow>
     own_entries (obj # rest) = obj # own_entries rest"
  by (auto simp: own_entries_def)

lemma ElementsByJS_loop_trace:
  "\<exists>ext. snd (ElementsByJS_loop p props acc tr) = tr @ ext \<and> (\<forall>obj. CallRelease obj \<notin> set ext)"
proof (induction props arbitrary: acc tr)
  case Nil
  then show ?case by simp
next
  case (Cons obj rest)
  show ?case
  proof (cases "Name obj = ''__proto__'' \<or> Name obj = ''length''")
    case True
    then show ?thesis using Cons.IH[of acc tr] by simp
  next
    case False
    show ?thesis
    proof (cases "Value obj")
      case None
      with False show ?thesis by simp
    next
      case (Some val)
      show ?thesis
      proof (cases "on_ElementFromObject p tr val")
        case (Inl err)
        with False Some show ?thesis by (simp add: ElementFromObject_def)
      next
        case (Inr el)
        from Cons.IH[of "acc @ [el]" "tr @ [CallElementFromObject val]"]
        obtain ext where "snd (ElementsByJS_loop p rest (acc @ [el]) (tr @ [CallElementFromObject val]))
                            = (tr @ [CallElementFromObject val]) @ ext"
          and "\<forall>obj. CallRelease obj \<notin> set ext" by blast
        with False Some Inr show ?thesis by (auto simp: ElementFromObject_def)
      qed
    qed
  qed
qed

lemma ElementsByJS_loop_fails:
  "\<exists>obj \<in> set (own_entries props). \<not> node_typed obj \<Longrightarrow>
     (\<exists>pn. fst (ElementsByJS_loop p props acc tr) = Inl pn)
   \<or> (\<exists>err. fst (ElementsByJS_loop p props acc tr) = Inr (None, Some err))"
proof (induction props arbitrary: acc tr)
  case Nil
  then show ?case by simp
next
  case (Cons obj rest)
  show ?case
  proof (cases "Name obj = ''__proto__'' \<or> Name obj = ''length''")
    case True
    then show ?thesis using Cons.IH[of acc tr] Cons.prems by simp
  next
    case False
    show ?thesis
    proof (cases "node_typed obj")
      case nt: False
      with False show ?thesis by (auto simp: node_typed_def split: option.splits)
    next
      case True
      then obtain val where val: "Value obj = Some val" "Subtype val = SubtypeNode"
        by (auto simp: node_typed_def split: option.splits)
      from True False Cons.prems have rest: "\<exists>obj \<in> set (own_entries rest). \<not> node_typed obj" by auto
      show ?thesis
      proof (cases "on_ElementFromObject p tr val")
        case (Inl err)
        with False val show ?thesis by (simp add: ElementFromObject_def)
      next
        case (Inr el)
        with False val Cons.IH[OF rest, of "acc @ [el]" "tr @ [CallElementFromObject val]"]
        show ?thesis by (simp add: ElementFromObject_def)
      qed
    qed
  qed
qed

lemma ElementsByJS_loop_valued_error:
  "\<forall>obj \<in> set (own_entries props). Value obj \<noteq> None \<Longrightarrow>
   \<exists>obj \<in> set (own_entries props). \<not> node_typed obj \<Longrightarrow>
   \<exists>err. fst (ElementsByJS_loop p props acc tr) = Inr (None, Some err)"
proof (induction props arbitrary: acc tr)
  case Nil
  then show ?case by simp
next
  case (Cons obj rest)
  show ?case
  proof (cases "Name obj = ''__proto__'' \<or> Name obj = ''length''")
    case True
    then show ?thesis using Cons.IH[of acc tr] Cons.prems by simp
  next
    case False
    with Cons.prems(1) obtain val where val: "Value obj = Some val" by auto
    show ?thesis
    proof (cases "Subtype val = SubtypeNode")
      case nt: False
      with False val show ?thesis by simp
    next
      case True
      with val have "node_typed obj" by (simp add: node_typed_def)
      with False Cons.prems have rest: "\<forall>obj \<in> set (own_entries rest). Value obj \<noteq> None"
        "\<exists>obj \<in> set (own_entries rest). \<not> node_typed obj" by auto
      show ?thesis
      proof (cases "on_ElementFromObject p tr val")
        case (Inl err)
        with False val True show ?thesis by (simp add: ElementFromObject_def)
      next
        case (Inr el)
        with False val True Cons.IH[OF rest, of "acc @ [el]" "tr @ [CallElementFromObject val]"]
        show ?thesis by (simp add: ElementFromObject_def)
      qed
    qed
  qed
qed

lemma ElementsByJS_loop_result:
  "fst (ElementsByJS_loop p props acc tr) = Inr (Some els, None) \<Longrightarrow>
   \<exists>new. els = acc @ new \<and> length new = length (own_entries props) \<and>
     (\<forall>i < length (own_entries props). \<exists>val.
         Value (own_entries props ! i) = Some val \<and> Subtype val = SubtypeNode \<and>
         on_ElementFromObject p (tr @ element_calls (take i (own_entries props))) val = Inr (new ! i))"
proof (induction props arbitrary: acc tr)
  case Nil
  then show ?case by simp
next
  case (Cons obj rest)
  show ?case
  proof (cases "Name obj = ''__proto__'' \<or> Name obj = ''length''")
    case True
    then show ?thesis using Cons.IH[of acc tr] Cons.prems by simp
  next
    case False
    from False Cons.prems obtain val el where
      val: "Value obj = Some val" "Subtype val = SubtypeNode" and
      el: "on_ElementFromObject p tr val = Inr el" and
      rec: "fst (ElementsByJS_loop p rest (acc @ [el]) (tr @ [CallElementFromObject val]))
              = Inr (Some els, None)"
      by (auto simp: ElementFromObject_def split: option.splits if_splits sum.splits)
    from Cons.IH[OF rec] obtain new where
      new: "els = (acc @ [el]) @ new" "length new = length (own_entries rest)" and
      nth: "\<forall>i < length (own_entries rest). \<exists>v.
         Value (own_entries rest ! i) = Some v \<and> Subtype v = SubtypeNode \<and>
         on_ElementFromObject p ((tr @ [CallElementFromObject val]) @ element_calls (take i (own_entries rest))) v
           = Inr (new ! i)"
      by blast
    have "\<exists>v. Value (own_entries (obj # rest) ! i) = Some v \<and> Subtype v = SubtypeNode \<and>
         on_ElementFromObject p (tr @ element_calls (take i (own_entries (obj # rest)))) v
           = Inr ((el # new) ! i)" if "i < length (own_entries (obj # rest))" for i
    proof (cases i)
      case 0
      with False val el show ?thesis by (simp add: element_calls_def)
    next
      case (Suc j)
      with that False have "j < length (own_entries rest)" by simp
      with nth Suc False val show ?thesis by (simp add: element_calls_def)
    qed
    with new False show ?thesis by (intro exI[of _ "el # new"]) simp
  qed
qed

lemma ElementsByJS_loop_succeeds:
  "\<forall>obj \<in> set (own_entries props). node_typed obj \<Longrightarrow>
   \<forall>t val. \<exists>el. on_ElementFromObject p t val = Inr el \<Longrightarrow>
   \<exists>els. fst (ElementsByJS_loop p props acc tr) = Inr (Some els, None)"
proof (induction props arbitrary: acc tr)
  case Nil
  then show ?case by simp
next
  case (Cons obj rest)
  show ?case
  proof (cases "Name obj = ''__proto__'' \<or> Name obj = ''length''")
    case True
    then show ?thesis using Cons.IH[of acc tr] Cons.prems by simp
  next
    case False
    with Cons.prems(1) obtain val where val: "Value obj = Some val" "Subtype val = SubtypeNode"
      by (auto simp: node_typed_def split: option.splits)
    from Cons.prems(2) obtain el where el: "on_ElementFromObject p tr val = Inr el" by blast
    from False Cons.prems(1) have "\<forall>obj \<in> set (own_entries rest). node_typed obj" by simp
    from Cons.IH[OF this Cons.prems(2), of "acc @ [el]" "tr @ [CallElementFromObject val]"]
    show ?thesis using False val el by (simp add: ElementFromObject_def)
  qed
qed

lemma ElementsByJS_on_array:
  assumes "on_Evaluate p tr (ByObject opts) = Inr res" and "Subtype res = SubtypeArray"
  shows "ElementsByJS p opts tr =
           (fst (ElementsByJS_body p res (tr @ [CallEvaluate (ByObject opts)])),
            snd (ElementsByJS_body p res (tr @ [CallEvaluate (ByObject opts)])) @ [CallRelease res])"
  using assms by (simp add: ElementsByJS_def Evaluate_def Release_def split: prod.splits)

lemma ElementsByJS_body_trace:
  "\<exists>ext. snd (ElementsByJS_body p res tr) = tr @ ext \<and> (\<forall>obj. CallRelease obj \<notin> set ext)"
proof (cases "on_RuntimeGetProperties p tr (ObjectID res) True")
  case (Inl err)
  then show ?thesis by (simp add: ElementsByJS_body_def RuntimeGetProperties_Call_def)
next
  case (Inr props)
  from ElementsByJS_loop_trace[of p props "[]" "tr @ [CallRuntimeGetProperties (ObjectID res) True]"]
  obtain ext where "snd (ElementsByJS_loop p props [] (tr @ [CallRuntimeGetProperties (ObjectID res) True]))
       = (tr @ [CallRuntimeGetProperties (ObjectID res) True]) @ ext" "\<forall>obj. CallRelease obj \<notin> set ext"
    by blast
  with Inr show ?thesis
    by (intro exI[of _ "CallRuntimeGetProperties (ObjectID res) True # ext"])
       (simp add: ElementsByJS_body_def RuntimeGetProperties_Call_def)
qed

lemma ElementsByJS_body_props:
  "on_RuntimeGetProperties p tr (ObjectID res) True = Inr props \<Longrightarrow>
   fst (ElementsByJS_body p res tr) =
     fst (ElementsByJS_loop p props [] (tr @ [CallRuntimeGetProperties (ObjectID res) True]))"
  by (simp add: ElementsByJS_body_def RuntimeGetProperties_Call_def)

text \<open>
  \<open>ElementsByJS\<close> on an array-typed object \<open>res\<close>. The array object is released exactly
  once, as the last call, whether the enumeration in between succeeds or fails (the
  release is deferred), and nothing else is released. When the own-properties \<open>props\<close> are
  obtained, the entries named \<open>__proto__\<close> and \<open>length\<close> are skipped. If every other entry
  carries a value and one of them is not node-typed, the call returns a nil list with an
  error; with an entry without value among them it returns that or panics. A list that
  is returned holds, in enumeration order, exactly the element handles made for the
  values of the entries that were not skipped, all of them node-typed; and when all of
  those are node-typed and the handles can be made, the call does return such a list.
\<close>

lemma ElementsByJS_array_behaviour:
  assumes eval: "on_Evaluate p tr (ByObject opts) = Inr res"
    and arr: "Subtype res = SubtypeArray"
  shows "(\<exists>mid. snd (ElementsByJS p opts tr) = tr @ CallEvaluate (ByObject opts) # mid @ [CallRelease res]
             \<and> (\<forall>obj. CallRelease obj \<notin> set mid))
       \<and> (on_RuntimeGetProperties p (tr @ [CallEvaluate (ByObject opts)]) (ObjectID res) True = Inr props \<longrightarrow>
           ((\<forall>obj \<in> set (own_entries props). Value obj \<noteq> None)
              \<and> (\<exists>obj \<in> set (own_entries props). \<not> node_typed obj) \<longrightarrow>
               (\<exists>err. fst (ElementsByJS p opts tr) = Inr (None, Some err)))
         \<and> ((\<exists>obj \<in> set (own_entries props). \<not> node_typed obj) \<longrightarrow>
               (\<exists>pn. fst (ElementsByJS p opts tr) = Inl pn)
             \<or> (\<exists>err. fst (ElementsByJS p opts tr) = Inr (None, Some err)))
         \<and> (\<forall>els. fst (ElementsByJS p opts tr) = Inr (Some els, None) \<longrightarrow>
               length els = length (own_entries props)
             \<and> (\<forall>i < length (own_entries props). \<exists>val.
                   Value (own_entries props ! i) = Some val \<and> Subtype val = SubtypeNode \<and>
                   on_ElementFromObject p
                     (tr @ [CallEvaluate (ByObject opts), CallRuntimeGetProperties (ObjectID res) True]
                         @ element_calls (take i (own_entries props))) val = Inr (els ! i)))
         \<and> ((\<forall>obj \<in> set (own_entries props). node_typed obj)
              \<and> (\<forall>t val. \<exists>el. on_ElementFromObject p t val = Inr el) \<longrightarrow>
             (\<exists>els. fst (ElementsByJS p opts tr) = Inr (Some els, None))))"
proof -
  let ?tr1 = "tr @ [CallEvaluate (ByObject opts)]"
  let ?tr2 = "?tr1 @ [CallRuntimeGetProperties (ObjectID res) True]"
  note eq = ElementsByJS_on_array[OF eval arr]
  have once: "\<exists>mid. snd (ElementsByJS p opts tr) = tr @ CallEvaluate (ByObject opts) # mid @ [CallRelease res]
             \<and> (\<forall>obj. CallRelease obj \<notin> set mid)"
    using ElementsByJS_body_trace[of p res ?tr1] eq by auto
  have rest: "((\<forall>obj \<in> set (own_entries props). Value obj \<noteq> None)
              \<and> (\<exists>obj \<in> set (own_entries props). \<not> node_typed obj) \<longrightarrow>
               (\<exists>err. fst (ElementsByJS p opts tr) = Inr (None, Some err)))
         \<and> ((\<exists>obj \<in> set (own_entries props). \<not> node_typed obj) \<longrightarrow>
               (\<exists>pn. fst (ElementsByJS p opts tr) = Inl pn)
             \<or> (\<exists>err. fst (ElementsByJS p opts tr) = Inr (None, Some err)))
         \<and> (\<forall>els. fst (ElementsByJS p opts tr) = Inr (Some els, None) \<longrightarrow>
               length els = length (own_entries props)
             \<and> (\<forall>i < length (own_entries props). \<exists>val.
                   Value (own_entries props ! i) = Some val \<and> Subtype val = SubtypeNode \<and>
                   on_ElementFromObject p
                     (tr @ [CallEvaluate (ByObject opts), CallRuntimeGetProperties (ObjectID res) True]
                         @ element_calls (take i (own_entries props))) val = Inr (els ! i)))
         \<and> ((\<forall>obj \<in> set (own_entries props). node_typed obj)
              \<and> (\<forall>t val. \<exists>el. on_ElementFromObject p t val = Inr el) \<longrightarrow>
             (\<exists>els. fst (ElementsByJS p opts tr) = Inr (Some els, None)))"
    if props: "on_RuntimeGetProperties p ?tr1 (ObjectID res) True = Inr props"
  proof -
    have r: "fst (ElementsByJS p opts tr) = fst (ElementsByJS_loop p props [] ?tr2)"
      using eq ElementsByJS_body_props[OF props] by simp
    have v: "(\<forall>obj \<in> set (own_entries props). Value obj \<noteq> None)
              \<and> (\<exists>obj \<in> set (own_entries props). \<not> node_typed obj) \<longrightarrow>
               (\<exists>err. fst (ElementsByJS p opts tr) = Inr (None, Some err))"
      using ElementsByJS_loop_valued_error[of props p "[]" ?tr2] r by simp
    have f: "(\<exists>obj \<in> set (own_entries props). \<not> node_typed obj) \<longrightarrow>
               (\<exists>pn. fst (ElementsByJS p opts tr) = Inl pn)
             \<or> (\<exists>err. fst (ElementsByJS p opts tr) = Inr (None, Some err))"
      using ElementsByJS_loop_fails[of props p "[]" ?tr2] r by simp
    have s: "length els = length (own_entries props)
             \<and> (\<forall>i < length (own_entries props). \<exists>val.
                   Value (own_entries props ! i) = Some val \<and> Subtype val = SubtypeNode \<and>
                   on_ElementFromObject p
                     (tr @ [CallEvaluate (ByObject opts), CallRuntimeGetProperties (ObjectID res) True]
                         @ element_calls (take i (own_entries props))) val = Inr (els ! i))"
      if "fst (ElementsByJS p opts tr) = Inr (Some els, None)" for els
      using ElementsByJS_loop_result[of p props "[]" ?tr2 els] that r by auto
    have g: "(\<forall>obj \<in> set (own_entries props). node_typed obj)
              \<and> (\<forall>t val. \<exists>el. on_ElementFromObject p t val = Inr el) \<longrightarrow>
             (\<exists>els. fst (ElementsByJS p opts tr) = Inr (Some els, None))"
      using ElementsByJS_loop_succeeds[of props p "[]" ?tr2] r by simp
    from v f s g show ?thesis by blast
  qed
  from once rest show ?thesis by blast
qed

lemma array_page_simps [simp]:
  "on_Evaluate array_page tr opts = Inr array_object"
  "on_RuntimeGetProperties array_page tr objectID own = Inr array_properties"
  "on_Release array_page tr obj = None"
  "on_ElementFromObject array_page tr obj = Inr \<lparr>Object = obj, el_sleeper = DefaultSleeper\<rparr>"
  by (simp_all add: array_page_def)

lemma array_run:
  "ElementsByJS array_page elements_js [] =
     (Inr (Some [\<lparr>Object = node_object ''a'', el_sleeper = DefaultSleeper\<rparr>,
                 \<lparr>Object = node_object ''b'', el_sleeper = DefaultSleeper\<rparr>,
                 \<lparr>Object = node_object ''c'', el_sleeper = DefaultSleeper\<rparr>], None),
      [CallEvaluate (ByObject elements_js), CallRuntimeGetProperties ''array'' True,
       CallElementFromObject (node_object ''a''), CallElementFromObject (node_object ''b''),
       CallElementFromObject (node_object ''c''), CallRelease array_object])"
  by (simp add: ElementsByJS_def ElementsByJS_body_def Evaluate_def RuntimeGetProperties_Call_def
      Release_def ElementFromObject_def array_properties_def array_object_def node_object_def)

lemma ElementsByJS_array_three_nodes:
  "ElementsByJS array_page elements_js [] =
     (Inr (Some [\<lparr>Object = node_object ''a'', el_sleeper = DefaultSleeper\<rparr>,
                 \<lparr>Object = node_object ''b'', el_sleeper = DefaultSleeper\<rparr>,
                 \<lparr>Object = node_object ''c'', el_sleeper = DefaultSleeper\<rparr>], None),
      [CallEvaluate (ByObject elements_js), CallRuntimeGetProperties ''array'' True,
       CallElementFromObject (node_object ''a''), CallElementFromObject (node_object ''b''),
       CallElementFromObject (node_object ''c''), CallRelease array_object])
   \<and> (\<exists>mid. snd (ElementsByJS array_page elements_js []) =
            [] @ CallEvaluate (ByObject elements_js) # mid @ [CallRelease array_object]
          \<and> (\<forall>obj. CallRelease obj \<notin> set mid))
   \<and> (\<exists>els. fst (ElementsByJS array_page elements_js []) = Inr (Some els, None)
          \<and> length els = length (own_entries array_properties))
   \<and> length (own_entries array_properties) = 3"
proof -
  have eval: "on_Evaluate array_page [] (ByObject elements_js) = Inr array_object" by simp
  have arr: "Subtype array_object = SubtypeArray" by (simp add: array_object_def)
  have props: "on_RuntimeGetProperties array_page ([] @ [CallEvaluate (ByObject elements_js)])
                 (ObjectID array_object) True = Inr array_properties" by simp
  have nodes: "\<forall>obj \<in> set (own_entries array_properties). node_typed obj"
    by (simp add: array_properties_def own_entries_def node_typed_def node_object_def)
  have made: "\<forall>t val. \<exists>el. on_ElementFromObject array_page t val = Inr el" by simp
  have three: "length (own_entries array_properties) = 3"
    by (simp add: array_properties_def own_entries_def)
  from ElementsByJS_array_behaviour [OF eval arr, of array_properties] props nodes made three array_run
  show ?thesis by blast
qed

text \<open>
  Claim C8. An own-property without a value is not named \<open>__proto__\<close> or \<open>length\<close>, so it
  is not skipped, and it is not node-typed. On an array with a node-typed entry followed
  by such a property the call does not fail through its results, as the claim has it:
  reading the subtype through the nil value panics, after the handle of the first entry
  was made. The deferred release of the array object still runs, once. For entries that
  carry a value the claim holds (\<open>ElementsByJS_array_behaviour\<close>): the call then returns a
  nil list and an error.
\<close>

theorem ElementsByJS_valueless_entry_panics:
  "ElementsByJS accessor_page elements_js [] =
     (Inl NilPointerDereference,
      [CallEvaluate (ByObject elements_js), CallRuntimeGetProperties ''array'' True,
       CallElementFromObject (node_object ''a''), CallRelease array_object])"
  by (simp add: accessor_page_def array_page_def ElementsByJS_def ElementsByJS_body_def Evaluate_def
      RuntimeGetProperties_Call_def Release_def ElementFromObject_def accessor_properties_def
      array_object_def node_object_def)

section \<open>Properties of the race\<close>

lemma Do_branches_skip:
  assumes "\<forall>j < length pre. \<exists>e.
             snd (condition (pre ! j) (Page_Sleeper p NotFoundSleeper) (tr @ map CallCondition [n..<n + j])) = Some e
             \<and> errors_Is e ErrElementNotFound"
  shows "Do_branches p (pre @ rest) n (el, tr) =
         Do_branches p rest (n + length pre) (el, tr @ map CallCondition [n..<n + length pre])"
  using assms
proof (induction pre arbitrary: n tr)
  case Nil
  then show ?case by simp
next
  case (Cons b pre)
  from Cons.prems[rule_format, of 0] obtain e where
    e: "snd (condition b (Page_Sleeper p NotFoundSleeper) tr) = Some e" "errors_Is e ErrElementNotFound"
    by auto
  have step: "Do_branches p ((b # pre) @ rest) n (el, tr) =
              Do_branches p (pre @ rest) (Suc n) (el, tr @ [CallCondition n])"
    using e by (cases "condition b (Page_Sleeper p NotFoundSleeper) tr") (simp add: Let_def)
  have upt: "map CallCondition [n..<n + Suc m] = CallCondition n # map CallCondition [Suc n..<Suc n + m]" for m
    by (simp add: upt_conv_Cons del: upt_Suc)
  have hyp: "\<forall>j < length pre. \<exists>e.
             snd (condition (pre ! j) (Page_Sleeper p NotFoundSleeper)
                    ((tr @ [CallCondition n]) @ map CallCondition [Suc n..<Suc n + j])) = Some e
             \<and> errors_Is e ErrElementNotFound"
  proof (intro allI impI)
    fix j assume "j < length pre"
    then have "Suc j < length (b # pre)" by simp
    from Cons.prems[rule_format, OF this]
    have "\<exists>e. snd (condition (pre ! j) (Page_Sleeper p NotFoundSleeper)
                    (tr @ map CallCondition [n..<n + Suc j])) = Some e
             \<and> errors_Is e ErrElementNotFound"
      by simp
    then show "\<exists>e. snd (condition (pre ! j) (Page_Sleeper p NotFoundSleeper)
                    ((tr @ [CallCondition n]) @ map CallCondition [Suc n..<Suc n + j])) = Some e
             \<and> errors_Is e ErrElementNotFound"
      by (simp only: upt append_assoc append_Cons append_Nil)
  qed
  have "Do_branches p (pre @ rest) (Suc n) (el, tr @ [CallCondition n]) =
        Do_branches p rest (Suc n + length pre)
          (el, (tr @ [CallCondition n]) @ map CallCondition [Suc n..<Suc n + length pre])"
    using Cons.IH[OF hyp] .
  also have "(tr @ [CallCondition n]) @ map CallCondition [Suc n..<Suc n + length pre]
             = tr @ map CallCondition [n..<n + length (b # pre)]"
    using upt[of "length pre"] by simp
  finally show ?case using step by simp
qed

lemma Do_tick_reaches:
  assumes "i < length (branches rc)"
    and "not_found_before (rc_page rc) (branches rc) tr i"
  shows "Do_tick rc (el, tr) =
         Do_branches (rc_page rc) (branches rc ! i # drop (Suc i) (branches rc)) i
           (el, tr @ map CallCondition [0..<i])"
proof -
  have split: "branches rc = take i (branches rc) @ (branches rc ! i # drop (Suc i) (branches rc))"
    using assms(1) by (simp add: id_take_nth_drop[symmetric])
  have "Do_branches (rc_page rc) (take i (branches rc) @ (branches rc ! i # drop (Suc i) (branches rc))) 0 (el, tr)
        = Do_branches (rc_page rc) (branches rc ! i # drop (Suc i) (branches rc))
            (0 + length (take i (branches rc)))
            (el, tr @ map CallCondition [0..<0 + length (take i (branches rc))])"
    using assms by (intro Do_branches_skip) (auto simp: not_found_before_def)
  with split assms(1) show ?thesis by (simp add: Do_tick_def min_def)
qed

lemma retries_utils_Retry:
  "retries fn sl k s = Some s' \<Longrightarrow> utils_Retry sl fn s = utils_Retry sl fn s'"
proof (induction k arbitrary: s)
  case 0
  then show ?case by simp
next
  case (Suc k)
  from Suc.prems obtain err s1 s2 where
    f: "fn s = (Inr (False, err), s1)" and w: "sl s1 = (None, s2)" and
    r: "retries fn sl k s2 = Some s'"
    by (auto split: prod.splits sum.splits bool.splits option.splits)
  have "utils_Retry sl fn s = utils_Retry sl fn s2"
    using f w by (subst utils_Retry.simps) simp
  with Suc.IH[OF r] show ?case by simp
qed

lemma utils_Retry_stops:
  "fn s = (Inr (True, err), s1) \<Longrightarrow> utils_Retry sl fn s = Some (Inr err, s1)"
  by (subst utils_Retry.simps) simp

lemma Do_branches_retry_keeps_el:
  "Do_branches p bs n (el, tr) = (Inr (False, err), (el', tr')) \<Longrightarrow> el' = el"
proof (induction bs arbitrary: n tr)
  case Nil
  then show ?case by simp
next
  case (Cons b bs)
  then show ?case
    by (cases "condition b (Page_Sleeper p NotFoundSleeper) tr")
       (auto simp: Let_def split: option.splits if_splits)
qed

lemma retries_Do_keeps_el:
  "retries (Do_tick rc) (Do_sleeper rc) k (el, tr) = Some (el', tr') \<Longrightarrow> el' = el"
proof (induction k arbitrary: el tr)
  case 0
  then show ?case by simp
next
  case (Suc k)
  from Suc.prems obtain err s1 s2 where
    f: "Do_tick rc (el, tr) = (Inr (False, err), s1)" and w: "Do_sleeper rc s1 = (None, s2)" and
    r: "retries (Do_tick rc) (Do_sleeper rc) k s2 = Some (el', tr')"
    by (auto split: prod.splits sum.splits bool.splits option.splits)
  from f have "fst s1 = el" using Do_branches_retry_keeps_el[of "rc_page rc" "branches rc" 0 el tr err "fst s1" "snd s1"]
    by (simp add: Do_tick_def)
  with w have "fst s2 = el" by (cases s1) (auto simp: Do_sleeper_def split: prod.splits)
  then obtain tr2 where "s2 = (el, tr2)" by (cases s2) simp
  with Suc.IH[of el tr2] r show ?case by simp
qed

text \<open>
  Claim C3. On any tick of \<open>Do\<close> (the tick after \<open>k\<close> ticks without a match), the conditions
  are evaluated in registration order: when the branches before the \<open>i\<close>-th all report
  element-not-found and the \<open>i\<close>-th returns an element without error, the calls of the tick
  are the conditions \<open>0, ..., i\<close> in this order, then the callback of branch \<open>i\<close> once, if it
  has one, with the resolved element (carrying the page's Sleeper); no later branch is
  evaluated, the loop stops, and \<open>Do\<close> returns that element with the callback's error
  (nil without a callback). So of two branches that would succeed on the same tick the
  first-registered one's element is returned.
\<close>

theorem Do_first_match_wins:
  assumes reached: "retries (Do_tick rc) (Do_sleeper rc) k (None, tr0) = Some (el0, tr)"
    and i: "i < length (branches rc)"
    and before: "\<forall>j < i. \<exists>e.
        snd (condition (branches rc ! j) (Page_Sleeper (rc_page rc) NotFoundSleeper)
               (tr @ map CallCondition [0..<j])) = Some e
        \<and> errors_Is e ErrElementNotFound"
    and found: "condition (branches rc ! i) (Page_Sleeper (rc_page rc) NotFoundSleeper)
                  (tr @ map CallCondition [0..<i]) = (Some b, None)"
  shows "Do rc tr0 =
     (let el = Element_Sleeper b (sleeper (rc_page rc));
          tr1 = tr @ map CallCondition [0..<Suc i]
      in case callback (branches rc ! i) of
           None \<Rightarrow> Some (Inr (Some el, None), tr1)
         | Some cb \<Rightarrow> Some (Inr (Some el, cb el tr1), tr1 @ [CallCallback i el]))"
proof -
  have nf: "not_found_before (rc_page rc) (branches rc) tr i"
    using before by (simp add: not_found_before_def)
  let ?el = "Element_Sleeper b (sleeper (rc_page rc))"
  let ?tr1 = "tr @ map CallCondition [0..<Suc i]"
  have tick: "Do_tick rc (el0, tr) =
      (case callback (branches rc ! i) of
         None \<Rightarrow> (Inr (True, None), (Some ?el, ?tr1))
       | Some cb \<Rightarrow> (Inr (True, cb ?el ?tr1), (Some ?el, ?tr1 @ [CallCallback i ?el])))"
    using found by (simp add: Do_tick_reaches[OF i nf] Let_def split: option.splits)
  have "utils_Retry (Do_sleeper rc) (Do_tick rc) (None, tr0)
        = utils_Retry (Do_sleeper rc) (Do_tick rc) (el0, tr)"
    using reached by (rule retries_utils_Retry)
  also have "\<dots> =
      (case callback (branches rc ! i) of
         None \<Rightarrow> Some (Inr None, (Some ?el, ?tr1))
       | Some cb \<Rightarrow> Some (Inr (cb ?el ?tr1), (Some ?el, ?tr1 @ [CallCallback i ?el])))"
    using tick by (auto simp: utils_Retry_stops split: option.splits)
  finally show ?thesis by (simp add: Do_def Let_def split: option.splits)
qed

text \<open>
  Claim C6. On any tick of \<open>Do\<close>, when the condition of a branch that is reached (the
  branches before it reported element-not-found), at whatever position \<open>i\<close>, returns an
  error that is not element-not-found, \<open>Do\<close> returns that error and a nil element; the
  last call made is that condition: no later branch is evaluated, no callback runs, and
  there is no further Sleeper wait or tick.
\<close>

theorem Do_fatal_error_aborts:
  assumes reached: "retries (Do_tick rc) (Do_sleeper rc) k (None, tr0) = Some (el0, tr)"
    and i: "i < length (branches rc)"
    and before: "\<forall>j < i. \<exists>e.
        snd (condition (branches rc ! j) (Page_Sleeper (rc_page rc) NotFoundSleeper)
               (tr @ map CallCondition [0..<j])) = Some e
        \<and> errors_Is e ErrElementNotFound"
    and fatal: "condition (branches rc ! i) (Page_Sleeper (rc_page rc) NotFoundSleeper)
                  (tr @ map CallCondition [0..<i]) = (bEl, Some err)"
    and other: "\<not> errors_Is err ErrElementNotFound"
  shows "Do rc tr0 = Some (Inr (None, Some err), tr @ map CallCondition [0..<Suc i])"
proof -
  have nf: "not_found_before (rc_page rc) (branches rc) tr i"
    using before by (simp add: not_found_before_def)
  have el0: "el0 = None" using retries_Do_keeps_el[OF reached] .
  have tick: "Do_tick rc (el0, tr) = (Inr (True, Some err), (el0, tr @ map CallCondition [0..<Suc i]))"
    using fatal other by (simp add: Do_tick_reaches[OF i nf] Let_def)
  have "utils_Retry (Do_sleeper rc) (Do_tick rc) (None, tr0)
        = utils_Retry (Do_sleeper rc) (Do_tick rc) (el0, tr)"
    using reached by (rule retries_utils_Retry)
  also have "\<dots> = Some (Inr (Some err), (el0, tr @ map CallCondition [0..<Suc i]))"
    using tick by (rule utils_Retry_stops)
  finally show ?thesis using el0 by (simp add: Do_def)
qed

text \<open>
  Claim C10. \<open>Handle\<close> on a \<open>RaceContext\<close> without branches indexes the empty slice at
  \<open>-1\<close> and panics; otherwise it sets the callback of the most recently registered branch
  (the last one) and leaves the other branches as they are.
\<close>

theorem Handle_last_branch:
  "Handle cb rc =
     (if branches rc = [] then Inl IndexOutOfRange
      else Inr (rc\<lparr>branches := butlast (branches rc) @ [(last (branches rc))\<lparr>callback := cb\<rparr>]\<rparr>))"
proof (cases "branches rc = []")
  case True
  then show ?thesis by (simp add: Handle_def)
next
  case False
  then have len: "0 < length (branches rc)" by simp
  have n: "nat (int (length (branches rc)) - 1) = length (branches rc) - 1" by simp
  have "(branches rc)[length (branches rc) - 1 := (branches rc ! (length (branches rc) - 1))\<lparr>callback := cb\<rparr>]
        = butlast (branches rc) @ [(last (branches rc))\<lparr>callback := cb\<rparr>]"
    using False
    by (metis append_butlast_last_id last_conv_nth length_butlast list_update_length)
  with False len show ?thesis by (simp add: Handle_def Let_def n)
qed

lemma Do_sleeper_apply:
  "Do_sleeper rc (el, tr) =
     (on_Sleeper (rc_page rc) tr (sleeper (rc_page rc)) (ctx (rc_page rc)),
      (el, tr @ [CallSleeper (sleeper (rc_page rc))]))"
  by (simp add: Do_sleeper_def sleeper_wait_def)

theorem Do_first_match_wins_witness:
  "Do race_ab [] =
     Some (Inr (Some (Element_Sleeper element_a DefaultSleeper), None),
           [CallCondition 0, CallCallback 0 (Element_Sleeper element_a DefaultSleeper)])
   \<and> Do race_ba [] =
     Some (Inr (Some (Element_Sleeper element_b DefaultSleeper), None), [CallCondition 0])
   \<and> Do race_later [] =
     Some (Inr (Some (Element_Sleeper element_b DefaultSleeper), Some (ErrOther ''callback failed'')),
           [CallCondition 0, CallCondition 1, CallSleeper DefaultSleeper,
            CallCondition 0, CallCondition 1,
            CallCallback 1 (Element_Sleeper element_b DefaultSleeper)])"
proof -
  have r0: "retries (Do_tick rc) (Do_sleeper rc) 0 (None, []) = Some (None, [])" for rc by simp
  have ab: "Do race_ab [] =
     Some (Inr (Some (Element_Sleeper element_a DefaultSleeper), None),
           [CallCondition 0, CallCallback 0 (Element_Sleeper element_a DefaultSleeper)])"
  proof -
    have i: "0 < length (branches race_ab)" by (simp add: race_ab_def)
    have b: "\<forall>j < 0. \<exists>e.
        snd (condition (branches race_ab ! j) (Page_Sleeper (rc_page race_ab) NotFoundSleeper)
               ([] @ map CallCondition [0..<j])) = Some e \<and> errors_Is e ErrElementNotFound" by simp
    have f: "condition (branches race_ab ! 0) (Page_Sleeper (rc_page race_ab) NotFoundSleeper)
                  ([] @ map CallCondition [0..<0]) = (Some element_a, None)"
      by (simp add: race_ab_def found_a_def)
    from Do_first_match_wins [OF r0 i b f] show ?thesis
      by (simp add: race_ab_def no_match_page_def callback_ok_def Let_def)
  qed
  have ba: "Do race_ba [] =
     Some (Inr (Some (Element_Sleeper element_b DefaultSleeper), None), [CallCondition 0])"
  proof -
    have i: "0 < length (branches race_ba)" by (simp add: race_ba_def)
    have b: "\<forall>j < 0. \<exists>e.
        snd (condition (branches race_ba ! j) (Page_Sleeper (rc_page race_ba) NotFoundSleeper)
               ([] @ map CallCondition [0..<j])) = Some e \<and> errors_Is e ErrElementNotFound" by simp
    have f: "condition (branches race_ba ! 0) (Page_Sleeper (rc_page race_ba) NotFoundSleeper)
                  ([] @ map CallCondition [0..<0]) = (Some element_b, None)"
      by (simp add: race_ba_def found_b_def)
    from Do_first_match_wins [OF r0 i b f] show ?thesis
      by (simp add: race_ba_def no_match_page_def Let_def)
  qed
  have later: "Do race_later [] =
     Some (Inr (Some (Element_Sleeper element_b DefaultSleeper), Some (ErrOther ''callback failed'')),
           [CallCondition 0, CallCondition 1, CallSleeper DefaultSleeper,
            CallCondition 0, CallCondition 1,
            CallCallback 1 (Element_Sleeper element_b DefaultSleeper)])"
  proof -
    let ?tr = "[CallCondition 0, CallCondition 1, CallSleeper DefaultSleeper]"
    have r1: "retries (Do_tick race_later) (Do_sleeper race_later) (Suc 0) (None, []) = Some (None, ?tr)"
      by (simp add: Do_tick_def Do_sleeper_apply race_later_def never_found_def found_b_later_def
          no_match_page_def Let_def)
    have i: "1 < length (branches race_later)" by (simp add: race_later_def)
    have b: "\<forall>j < 1. \<exists>e.
        snd (condition (branches race_later ! j) (Page_Sleeper (rc_page race_later) NotFoundSleeper)
               (?tr @ map CallCondition [0..<j])) = Some e \<and> errors_Is e ErrElementNotFound"
      by (simp add: race_later_def never_found_def)
    have f: "condition (branches race_later ! 1) (Page_Sleeper (rc_page race_later) NotFoundSleeper)
                  (?tr @ map CallCondition [0..<1]) = (Some element_b, None)"
      by (simp add: race_later_def found_b_later_def)
    from Do_first_match_wins [OF r1 i b f] show ?thesis
      by (simp add: race_later_def no_match_page_def callback_fails_def Let_def)
  qed
  from ab ba later show ?thesis by simp
qed

theorem Do_fatal_error_aborts_witness:
  "Do race_broken [] =
     Some (Inr (None, Some (ErrOther ''connection closed'')), [CallCondition 0, CallCondition 1])"
proof -
  have r0: "retries (Do_tick race_broken) (Do_sleeper race_broken) 0 (None, []) = Some (None, [])"
    by simp
  have i: "1 < length (branches race_broken)" by (simp add: race_broken_def)
  have b: "\<forall>j < 1. \<exists>e.
      snd (condition (branches race_broken ! j) (Page_Sleeper (rc_page race_broken) NotFoundSleeper)
             ([] @ map CallCondition [0..<j])) = Some e \<and> errors_Is e ErrElementNotFound"
    by (simp add: race_broken_def never_found_def)
  have f: "condition (branches race_broken ! 1) (Page_Sleeper (rc_page race_broken) NotFoundSleeper)
                ([] @ map CallCondition [0..<1]) = (None, Some (ErrOther ''connection closed''))"
    by (simp add: race_broken_def broken_def)
  have o: "\<not> errors_Is (ErrOther ''connection closed'') ErrElementNotFound" by simp
  from Do_fatal_error_aborts [OF r0 i b f o] show ?thesis by simp
qed

theorem Handle_last_branch_witness:
  "Handle (Some callback_ok) (Race no_match_page) = Inl IndexOutOfRange
   \<and> Handle (Some callback_ok) (ElementFunc found_b (ElementFunc found_a (Race no_match_page))) =
       Inr \<lparr>rc_page = no_match_page,
            branches = [\<lparr>condition = found_a, callback = None\<rparr>,
                        \<lparr>condition = found_b, callback = Some callback_ok\<rparr>]\<rparr>"
  using Handle_last_branch [of "Some callback_ok" "Race no_match_page"]
        Handle_last_branch [of "Some callback_ok" "ElementFunc found_b (ElementFunc found_a (Race no_match_page))"]
  by (simp add: Race_def ElementFunc_def)

end
